theory Spec2Isabelle
  imports Main "HOL-Library.Sublist" "HOL-Library.Multiset"
begin

section \<open>Python string primitives used by the embed builder\<close>

text \<open>
  A Python \<open>str\<close> is modelled as a \<open>string\<close>, each character read as a code point
  below 256. The primitives below are the built-in methods that \<open>lib/builder.py\<close>
  calls, with the behaviour of CPython on such strings.
\<close>

definition isspace :: "char \<Rightarrow> bool" where
  \<comment> \<open>the characters removed by \<open>str.strip()\<close> without argument\<close>
  "isspace c = (let n = (of_char c :: nat) in (9 \<le> n \<and> n \<le> 13) \<or> (28 \<le> n \<and> n \<le> 32) \<or> n = 133 \<or> n = 160)"

definition set_bit5 :: "char \<Rightarrow> char" where
  \<comment> \<open>the code point plus 32, for a code point whose bit 5 is clear\<close>
  "set_bit5 c = (case c of Char b0 b1 b2 b3 b4 b5 b6 b7 \<Rightarrow> Char b0 b1 b2 b3 b4 True b6 b7)"

definition lower_char :: "char \<Rightarrow> char" where
  \<comment> \<open>\<open>str.lower()\<close> on one character: the letters A to Z, and the upper-case letters
     of the Latin-1 block (192 to 222 without the multiplication sign 215)\<close>
  "lower_char c = (let n = (of_char c :: nat) in
     if (65 \<le> n \<and> n \<le> 90) \<or> (192 \<le> n \<and> n \<le> 222 \<and> n \<noteq> 215) then set_bit5 c else c)"

definition py_lower :: "string \<Rightarrow> string" where
  "py_lower s = map lower_char s"

definition py_lstrip :: "(char \<Rightarrow> bool) \<Rightarrow> string \<Rightarrow> string" where
  "py_lstrip p s = dropWhile p s"

definition py_rstrip :: "(char \<Rightarrow> bool) \<Rightarrow> string \<Rightarrow> string" where
  "py_rstrip p s = rev (dropWhile p (rev s))"

definition py_strip :: "(char \<Rightarrow> bool) \<Rightarrow> string \<Rightarrow> string" where
  "py_strip p s = py_rstrip p (py_lstrip p s)"

definition is_brace :: "char \<Rightarrow> bool" where
  \<comment> \<open>the character set of \<open>strip("{}")\<close>\<close>
  "is_brace c = (c = CHR ''{'' \<or> c = CHR ''}'')"

definition is_rbrace :: "char \<Rightarrow> bool" where
  \<comment> \<open>the character set of \<open>rstrip("}")\<close>\<close>
  "is_rbrace c = (c = CHR ''}'')"

text \<open>\<open>s.split(sep)\<close> for a non-empty separator: every piece between occurrences of
  \<open>sep\<close>, scanned from the left.\<close>

function py_split :: "string \<Rightarrow> string \<Rightarrow> string list" where
  "py_split sep s =
     (if s = [] then [[]]
      else if sep \<noteq> [] \<and> prefix sep s then [] # py_split sep (drop (length sep) s)
      else (case py_split sep (tl s) of w # ws \<Rightarrow> (hd s # w) # ws | [] \<Rightarrow> [[hd s]]))"
  by pat_completeness auto
termination
  by (relation "measure (\<lambda>(sep, s). length s)") (auto simp: neq_Nil_conv)

declare py_split.simps [simp del]

text \<open>\<open>s.split(":", 1)\<close> followed by the unpacking \<open>key, value = ...\<close>: the two pieces
  around the first colon, or no result (the unpacking raises) when there is no colon.\<close>

definition split_colon :: "string \<Rightarrow> (string \<times> string) option" where
  "split_colon s =
     (if CHR '':'' \<in> set s
      then Some (takeWhile (\<lambda>c. c \<noteq> CHR '':'') s, tl (dropWhile (\<lambda>c. c \<noteq> CHR '':'') s))
      else None)"

text \<open>\<open>s.replace(old, new)\<close>: every occurrence of \<open>old\<close>, leftmost first and without
  overlap; an empty \<open>old\<close> matches before every character and at the end.\<close>

function replace_from :: "string \<Rightarrow> string \<Rightarrow> string \<Rightarrow> string" where
  "replace_from old new s =
     (if s = [] then []
      else if old \<noteq> [] \<and> prefix old s then new @ replace_from old new (drop (length old) s)
      else hd s # replace_from old new (tl s))"
  by pat_completeness auto
termination
  by (relation "measure (\<lambda>(old, new, s). length s)") (auto simp: neq_Nil_conv)

declare replace_from.simps [simp del]

definition py_replace :: "string \<Rightarrow> string \<Rightarrow> string \<Rightarrow> string" where
  "py_replace s old new =
     (if old = [] then new @ concat (map (\<lambda>c. c # new) s) else replace_from old new s)"

subsection \<open>\<open>int(value, 16)\<close>\<close>

definition int_space :: "char \<Rightarrow> bool" where
  \<comment> \<open>the white space \<open>int()\<close> skips around the literal\<close>
  "int_space c = (let n = (of_char c :: nat) in (9 \<le> n \<and> n \<le> 13) \<or> n = 32 \<or> n = 133 \<or> n = 160)"

definition hex_digit :: "char \<Rightarrow> nat option" where
  "hex_digit c = (let n = (of_char c :: nat) in
     if 48 \<le> n \<and> n \<le> 57 then Some (n - 48)
     else if 97 \<le> n \<and> n \<le> 102 then Some (n - 87)
     else if 65 \<le> n \<and> n \<le> 70 then Some (n - 55)
     else None)"

definition is_hex :: "char \<Rightarrow> bool" where
  "is_hex c = (hex_digit c \<noteq> None)"

fun hex_value :: "nat \<Rightarrow> string \<Rightarrow> nat" where
  "hex_value acc [] = acc"
| "hex_value acc (c # cs) = hex_value (16 * acc + (case hex_digit c of Some d \<Rightarrow> d | None \<Rightarrow> 0)) cs"

fun underscores_ok :: "string \<Rightarrow> bool" where
  \<comment> \<open>no two underscores in a row and none at the end of the digits\<close>
  "underscores_ok [] = True"
| "underscores_ok [c] = (c \<noteq> CHR ''_'')"
| "underscores_ok (c # d # cs) = (\<not> (c = CHR ''_'' \<and> d = CHR ''_'') \<and> underscores_ok (d # cs))"

definition strip_sign :: "string \<Rightarrow> bool \<times> string" where
  "strip_sign s = (case s of [] \<Rightarrow> (False, [])
     | c # cs \<Rightarrow> if c = CHR ''-'' then (True, cs) else if c = CHR ''+'' then (False, cs) else (False, s))"

definition strip_0x :: "string \<Rightarrow> string" where
  \<comment> \<open>the optional prefix \<open>0x\<close> or \<open>0X\<close>, and one underscore after it\<close>
  "strip_0x s = (if prefix ''0x'' s \<or> prefix ''0X'' s
     then (if prefix ''_'' (drop 2 s) then drop 3 s else drop 2 s) else s)"

definition hex_digits :: "bool \<Rightarrow> string \<Rightarrow> string \<Rightarrow> int option" where
  \<comment> \<open>\<open>body\<close> is the run of digits and underscores, \<open>rest\<close> what follows it\<close>
  "hex_digits neg body rest =
     (if filter is_hex body = [] \<or> \<not> underscores_ok body \<or> dropWhile int_space rest \<noteq> []
      then None
      else Some (if neg then - int (hex_value 0 (filter is_hex body))
                 else int (hex_value 0 (filter is_hex body))))"

definition hex_literal :: "bool \<Rightarrow> string \<Rightarrow> int option" where
  "hex_literal neg s =
     (if prefix ''_'' s then None
      else hex_digits neg (takeWhile (\<lambda>c. is_hex c \<or> c = CHR ''_'') s)
                          (dropWhile (\<lambda>c. is_hex c \<or> c = CHR ''_'') s))"

definition py_int16 :: "string \<Rightarrow> int option" where
  "py_int16 s =
     (case strip_sign (dropWhile int_space s) of (neg, s2) \<Rightarrow> hex_literal neg (strip_0x s2))"

subsection \<open>\<open>str(n)\<close> of an integer\<close>

definition digit_char :: "nat \<Rightarrow> char" where
  "digit_char d = ''0123456789'' ! d"

fun digits :: "nat \<Rightarrow> string" where
  "digits n = (if n < 10 then [digit_char n] else digits (n div 10) @ [digit_char (n mod 10)])"

declare digits.simps [simp del]

definition str_int :: "int \<Rightarrow> string" where
  "str_int i = (if i < 0 then CHR ''-'' # digits (nat (- i)) else digits (nat i))"

section \<open>The builder and its flag parser\<close>

text \<open>The attributes of a \<open>Builder\<close> instance; \<open>None\<close> is Python's \<open>None\<close>. The attribute
  \<open>image\<close> is named \<open>image_attr\<close> here.\<close>

record builder =
  title :: "string option"
  description :: "string option"
  color :: "int option"
  url :: "string option"
  author :: "string option"
  footer :: "string option"
  thumbnail :: "string option"
  image_attr :: "string option"

definition init_builder :: builder where
  "init_builder = \<lparr> title = None, description = None, color = None, url = None,
     author = None, footer = None, thumbnail = None, image_attr = None \<rparr>"

text \<open>Both failures of \<open>parse\<close> are a Python \<open>ValueError\<close>: the unpacking of a segment
  without a colon, and \<open>int(value, 16)\<close> on a value that is no base-16 literal.\<close>

datatype error = MalformedSegment | InvalidColor

definition is_sentinel :: "string \<Rightarrow> bool" where
  "is_sentinel attribute = (py_lower (py_strip isspace attribute) = ''{embed}'')"

definition norm_key :: "string \<Rightarrow> string" where
  "norm_key key = py_strip is_brace (py_lower (py_strip isspace key))"

definition norm_value :: "string \<Rightarrow> string" where
  "norm_value v = py_rstrip is_rbrace (py_strip isspace v)"

definition assign :: "builder \<Rightarrow> string \<Rightarrow> string \<Rightarrow> error + builder" where
  "assign b key v =
     (if key = ''title'' then Inr (b\<lparr>title := Some v\<rparr>)
      else if key = ''description'' then Inr (b\<lparr>description := Some v\<rparr>)
      else if key = ''color'' then
        (case py_int16 v of None \<Rightarrow> Inl InvalidColor | Some n \<Rightarrow> Inr (b\<lparr>color := Some n\<rparr>))
      else if key = ''url'' then Inr (b\<lparr>url := Some v\<rparr>)
      else if key = ''author'' then Inr (b\<lparr>author := Some v\<rparr>)
      else if key = ''footer'' then Inr (b\<lparr>footer := Some v\<rparr>)
      else if key = ''thumbnail'' then Inr (b\<lparr>thumbnail := Some v\<rparr>)
      else if key = ''image'' then Inr (b\<lparr>image_attr := Some v\<rparr>)
      else Inr b)"

text \<open>The body of the loop of \<open>parse\<close>, for one segment.\<close>

definition parse_attribute :: "builder \<Rightarrow> string \<Rightarrow> error + builder" where
  "parse_attribute b attribute =
     (if is_sentinel attribute then Inr b
      else (case split_colon attribute of
              None \<Rightarrow> Inl MalformedSegment
            | Some (key, v) \<Rightarrow> assign b (norm_key key) (norm_value v)))"

fun parse_attributes :: "builder \<Rightarrow> string list \<Rightarrow> error + builder" where
  "parse_attributes b [] = Inr b"
| "parse_attributes b (attribute # attributes) =
     (case parse_attribute b attribute of
        Inl e \<Rightarrow> Inl e
      | Inr b' \<Rightarrow> parse_attributes b' attributes)"

definition parse :: "builder \<Rightarrow> string \<Rightarrow> error + builder" where
  "parse b flags = parse_attributes b (py_split ''$v'' flags)"

text \<open>\<open>Builder(flags)\<close>: the constructor parses only a truthy \<open>flags\<close>.\<close>

definition Builder :: "string option \<Rightarrow> error + builder" where
  "Builder flags =
     (case flags of None \<Rightarrow> Inr init_builder
      | Some f \<Rightarrow> if f = [] then Inr init_builder else parse init_builder f)"

section \<open>Placeholder tables\<close>

text \<open>The values a placeholder table holds: \<open>None\<close>, an integer or a string. The test
  \<open>if value:\<close> is Python's truth value, and \<open>str(value)\<close> its rendering.\<close>

datatype pyval = VNone | VInt int | VStr string

definition truthy :: "pyval \<Rightarrow> bool" where
  "truthy v = (case v of VNone \<Rightarrow> False | VInt i \<Rightarrow> i \<noteq> 0 | VStr s \<Rightarrow> s \<noteq> [])"

definition py_str :: "pyval \<Rightarrow> string" where
  "py_str v = (case v of VNone \<Rightarrow> ''None'' | VInt i \<Rightarrow> str_int i | VStr s \<Rightarrow> s)"

text \<open>What \<open>mapping\<close> reads of a member, of its guild and of a message. The avatar and
  the icon hold the URL of the asset, or \<open>None\<close> when the asset is falsy. Time stamps
  are of a type \<open>'t\<close>; \<open>utils.format_dt(_, style="R")\<close> belongs to the chat library and
  is a parameter \<open>format_dt\<close> of the model.\<close>

record guild =
  guild_id :: int
  guild_name :: string
  guild_icon :: "string option"
  guild_member_count :: int
  guild_premium_subscription_count :: int
  guild_premium_tier :: int

record 't member =
  member_id :: int
  member_mention :: string
  member_name :: string
  member_display_name :: string
  member_avatar :: "string option"
  member_display_avatar :: string
  member_joined_at :: 't
  member_created_at :: 't
  member_guild :: guild

record 't message =
  message_content :: string
  message_jump_url :: string
  message_created_at :: 't

definition opt_url :: "string option \<Rightarrow> pyval" where
  \<comment> \<open>\<open>asset.url if asset else None\<close>\<close>
  "opt_url a = (case a of None \<Rightarrow> VNone | Some u \<Rightarrow> VStr u)"

definition user_table :: "('t \<Rightarrow> string) \<Rightarrow> 't member \<Rightarrow> (string \<times> pyval) list" where
  "user_table format_dt user =
     [(''{user.id}'', VInt (member_id user)),
      (''{user.mention}'', VStr (member_mention user)),
      (''{user.name}'', VStr (member_name user)),
      (''{user.display}'', VStr (member_display_name user)),
      (''{user.avatar}'', opt_url (member_avatar user)),
      (''{user.display_avatar}'', VStr (member_display_avatar user)),
      (''{user.joined_at}'', VStr (format_dt (member_joined_at user))),
      (''{user.created_at}'', VStr (format_dt (member_created_at user))),
      (''{guild.id}'', VInt (guild_id (member_guild user))),
      (''{guild.name}'', VStr (guild_name (member_guild user))),
      (''{guild.icon}'', opt_url (guild_icon (member_guild user))),
      (''{guild.membercount}'', VInt (guild_member_count (member_guild user))),
      (''{guild.boost_count}'', VInt (guild_premium_subscription_count (member_guild user))),
      (''{guild.boost_tier}'', VInt (guild_premium_tier (member_guild user)))]"

definition level_table :: "int \<Rightarrow> (string \<times> pyval) list" where
  "level_table level =
     [(''{level}'', VStr (str_int level)),
      (''{level.previous}'', VStr (str_int (level - 1)))]"

definition xp_table :: "int \<Rightarrow> (string \<times> pyval) list" where
  "xp_table xp =
     [(''{xp}'', VStr (str_int xp)),
      (''{xp.previous}'', VStr (str_int (xp - 1)))]"

definition message_table :: "('t \<Rightarrow> string) \<Rightarrow> 't message \<Rightarrow> (string \<times> pyval) list" where
  "message_table format_dt message =
     [(''{message.content}'', VStr (message_content message)),
      (''{message.url}'', VStr (message_jump_url message)),
      (''{message.created_at}'', VStr (format_dt (message_created_at message)))]"

definition int_truthy :: "int option \<Rightarrow> bool" where
  \<comment> \<open>\<open>if level:\<close> on an optional integer\<close>
  "int_truthy n = (n \<noteq> None \<and> n \<noteq> Some 0)"

text \<open>\<open>Builder.mapping\<close>; the table is a dictionary, kept in its insertion order.\<close>

definition mapping ::
  "('t \<Rightarrow> string) \<Rightarrow> 't member option \<Rightarrow> 't message option \<Rightarrow> int option \<Rightarrow> int option
     \<Rightarrow> (string \<times> pyval) list" where
  "mapping format_dt user message level xp =
     (if user \<noteq> None then user_table format_dt (the user)
      else if int_truthy level then level_table (the level)
      else if int_truthy xp then xp_table (the xp)
      else if message \<noteq> None then message_table format_dt (the message)
      else [])"

section \<open>Substitution\<close>

text \<open>The values \<open>replace_placeholders\<close> walks: a string, a dictionary (its items in
  order), a list, or anything else.\<close>

datatype ('k, 'o) pyobj =
    PyStr string
  | PyDict "('k \<times> ('k, 'o) pyobj) list"
  | PyList "('k, 'o) pyobj list"
  | PyOther 'o

text \<open>The loop of the string branch, over the items of \<open>mappings\<close>.\<close>

fun replace_text :: "string \<Rightarrow> (string \<times> pyval) list \<Rightarrow> string" where
  "replace_text text [] = text"
| "replace_text text ((placeholder, v) # mappings) =
     replace_text (if truthy v then py_replace text placeholder (py_str v) else text) mappings"

primrec replace_placeholders :: "(string \<times> pyval) list \<Rightarrow> ('k, 'o) pyobj \<Rightarrow> ('k, 'o) pyobj" where
  "replace_placeholders mappings (PyStr text) = PyStr (replace_text text mappings)"
| "replace_placeholders mappings (PyDict items) =
     PyDict (map (map_prod id (replace_placeholders mappings)) items)"
| "replace_placeholders mappings (PyList items) = PyList (map (replace_placeholders mappings) items)"
| "replace_placeholders mappings (PyOther x) = PyOther x"

section \<open>Notions used to state the properties\<close>

text \<open>The key and the value \<open>parse\<close> computes for a segment that holds a colon.\<close>

definition attribute_key :: "string \<Rightarrow> string" where
  "attribute_key attribute = norm_key (takeWhile (\<lambda>c. c \<noteq> CHR '':'') attribute)"

definition attribute_value :: "string \<Rightarrow> string" where
  "attribute_value attribute = norm_value (tl (dropWhile (\<lambda>c. c \<noteq> CHR '':'') attribute))"

text \<open>The keys the \<open>if\<close>/\<open>elif\<close> chain of \<open>parse\<close> tests, in its order.\<close>

definition recognized :: "string list" where
  "recognized = [''title'', ''description'', ''color'', ''url'', ''author'', ''footer'', ''thumbnail'', ''image'']"

text \<open>A segment on which \<open>int(value, 16)\<close> raises.\<close>

definition bad_color :: "string \<Rightarrow> bool" where
  "bad_color attribute = (\<not> is_sentinel attribute \<and> CHR '':'' \<in> set attribute \<and>
     attribute_key attribute = ''color'' \<and> py_int16 (attribute_value attribute) = None)"

text \<open>The normalisation as the specification words it: one leading \<open>{\<close> and one trailing
  \<open>}\<close> taken off the key, one trailing \<open>}\<close> off the value, never more. These two
  definitions follow the specification, not the source.\<close>

definition strip_one_leading :: "char \<Rightarrow> string \<Rightarrow> string" where
  "strip_one_leading ch s = (case s of [] \<Rightarrow> [] | c # cs \<Rightarrow> if c = ch then cs else s)"

definition strip_one_trailing :: "char \<Rightarrow> string \<Rightarrow> string" where
  "strip_one_trailing ch s = rev (strip_one_leading ch (rev s))"

definition claimed_key :: "string \<Rightarrow> string" where
  "claimed_key key = strip_one_trailing CHR ''}'' (strip_one_leading CHR ''{'' (py_lower (py_strip isspace key)))"

definition claimed_value :: "string \<Rightarrow> string" where
  "claimed_value v = strip_one_trailing CHR ''}'' (py_strip isspace v)"

text \<open>The characters that can occur in a string \<open>int(_, 16)\<close> accepts.\<close>

definition literal_char :: "char \<Rightarrow> bool" where
  "literal_char c = (is_hex c \<or> c = CHR ''_'' \<or> c = CHR ''+'' \<or> c = CHR ''-'' \<or> c = CHR ''x''
     \<or> c = CHR ''X'' \<or> int_space c)"

text \<open>An attribute of the builder read by its name, and what a segment with a given key
  and value writes to it.\<close>

datatype fval = FStr string | FInt int

definition get_field :: "string \<Rightarrow> builder \<Rightarrow> fval option" where
  "get_field key b =
     (if key = ''title'' then map_option FStr (title b)
      else if key = ''description'' then map_option FStr (description b)
      else if key = ''color'' then map_option FInt (color b)
      else if key = ''url'' then map_option FStr (url b)
      else if key = ''author'' then map_option FStr (author b)
      else if key = ''footer'' then map_option FStr (footer b)
      else if key = ''thumbnail'' then map_option FStr (thumbnail b)
      else if key = ''image'' then map_option FStr (image_attr b)
      else None)"

definition written :: "string \<Rightarrow> string \<Rightarrow> fval option" where
  "written key v = (if key = ''color'' then map_option FInt (py_int16 v) else Some (FStr v))"

text \<open>The shape of a value: its nesting, the keys of its dictionaries in order, the
  lengths of its lists and its leaves that are no strings. The strings of a value are
  its string leaves; a value is token free when none of them holds a key of the table.\<close>

datatype ('k, 'o) shape =
    SStr
  | SDict "('k \<times> ('k, 'o) shape) list"
  | SList "('k, 'o) shape list"
  | SOther 'o

primrec shape_of :: "('k, 'o) pyobj \<Rightarrow> ('k, 'o) shape" where
  "shape_of (PyStr s) = SStr"
| "shape_of (PyDict items) = SDict (map (map_prod id shape_of) items)"
| "shape_of (PyList items) = SList (map shape_of items)"
| "shape_of (PyOther x) = SOther x"

primrec strings_of :: "('k, 'o) pyobj \<Rightarrow> string list" where
  "strings_of (PyStr s) = [s]"
| "strings_of (PyDict items) = concat (map snd (map (map_prod id strings_of) items))"
| "strings_of (PyList items) = concat (map strings_of items)"
| "strings_of (PyOther x) = []"

definition token_free :: "(string \<times> pyval) list \<Rightarrow> ('k, 'o) pyobj \<Rightarrow> bool" where
  "token_free mappings x = (\<forall>s\<in>set (strings_of x). \<forall>p\<in>set mappings. \<not> sublist (fst p) s)"

text \<open>A string is brace free when it holds neither \<open>{\<close> nor \<open>}\<close>; a token is \<open>{\<close>, a
  brace-free body and \<open>}\<close>. A text is flat (\<open>flat False\<close>) when no \<open>{\<close> follows another
  \<open>{\<close> without a \<open>}\<close> between them; \<open>flat_str\<close> describes the same texts piece by piece.
  \<open>subst_step\<close> is one round of the loop of \<open>replace_text\<close>.\<close>

definition brace_free :: "string \<Rightarrow> bool" where
  "brace_free s = (CHR ''{'' \<notin> set s \<and> CHR ''}'' \<notin> set s)"

definition is_token :: "string \<Rightarrow> bool" where
  "is_token t = (case t of [] \<Rightarrow> False
     | c # r \<Rightarrow> c = CHR ''{'' \<and> r \<noteq> [] \<and> last r = CHR ''}'' \<and> brace_free (butlast r))"

fun flat :: "bool \<Rightarrow> string \<Rightarrow> bool" where
  "flat opened [] = True"
| "flat opened (c # cs) =
     (if c = CHR ''{'' then \<not> opened \<and> flat True cs
      else if c = CHR ''}'' then flat False cs
      else flat opened cs)"

inductive flat_str :: "string \<Rightarrow> bool" where
  Nil: "flat_str []"
| Plain: "c \<noteq> CHR ''{'' \<Longrightarrow> flat_str s \<Longrightarrow> flat_str (c # s)"
| Open: "brace_free u \<Longrightarrow> flat_str (CHR ''{'' # u)"
| Tok: "brace_free u \<Longrightarrow> flat_str s \<Longrightarrow> flat_str (CHR ''{'' # u @ CHR ''}'' # s)"

definition subst_step :: "string \<times> pyval \<Rightarrow> string \<Rightarrow> string" where
  "subst_step p s = (if truthy (snd p) then py_replace s (fst p) (py_str (snd p)) else s)"

text \<open>Concrete event data for the examples: a time stamp is a number of seconds, rendered
  as a relative-time tag.\<close>

definition example_format_dt :: "int \<Rightarrow> string" where
  "example_format_dt t = ''<t:'' @ str_int t @ '':R>''"

definition example_guild :: guild where
  "example_guild = \<lparr> guild_id = 77, guild_name = ''Gym'', guild_icon = None,
     guild_member_count = 12, guild_premium_subscription_count = 0, guild_premium_tier = 0 \<rparr>"

definition example_member :: "int member" where
  "example_member = \<lparr> member_id = 42, member_mention = ''<@42>'', member_name = ''ann'',
     member_display_name = ''Ann'', member_avatar = None, member_display_avatar = ''https://cdn/a.png'',
     member_joined_at = 1700000000, member_created_at = 1600000000, member_guild = example_guild \<rparr>"

definition example_message :: "int message" where
  "example_message = \<lparr> message_content = ''{message.url}'', message_jump_url = ''https://m/1'',
     message_created_at = 1700000000 \<rparr>"

section \<open>Properties of the flag parser\<close>

lemma parse_attribute_colon:
  "CHR '':'' \<in> set a \<Longrightarrow> \<not> is_sentinel a \<Longrightarrow>
   parse_attribute b a = assign b (attribute_key a) (attribute_value a)"
  by (simp add: parse_attribute_def split_colon_def attribute_key_def attribute_value_def)

lemma parse_attribute_no_colon:
  "CHR '':'' \<notin> set a \<Longrightarrow> \<not> is_sentinel a \<Longrightarrow> parse_attribute b a = Inl MalformedSegment"
  by (simp add: parse_attribute_def split_colon_def)

lemma parse_attribute_sentinel: "is_sentinel a \<Longrightarrow> parse_attribute b a = Inr b"
  by (simp add: parse_attribute_def)

lemma assign_unknown: "key \<notin> set recognized \<Longrightarrow> assign b key v = Inr b"
  by (simp add: assign_def recognized_def)

lemma parse_attributes_append:
  "parse_attributes b (xs @ ys) =
     (case parse_attributes b xs of Inl e \<Rightarrow> Inl e | Inr b' \<Rightarrow> parse_attributes b' ys)"
  by (induction xs arbitrary: b) (auto split: sum.splits)

lemma parse_attributes_fails:
  assumes "a \<in> set xs" and "\<And>c. \<exists>e. parse_attribute c a = Inl e"
  shows "\<exists>e. parse_attributes b xs = Inl e"
  using assms(1)
proof (induction xs arbitrary: b)
  case Nil
  then show ?case by simp
next
  case (Cons x xs)
  show ?case
  proof (cases "parse_attribute b x")
    case (Inl e)
    then show ?thesis by simp
  next
    case (Inr b')
    with assms(2) [of b] have "x \<noteq> a" by auto
    with Cons.prems have "a \<in> set xs" by simp
    from Cons.IH [OF this] Inr show ?thesis by simp
  qed
qed

lemma parse_attribute_error:
  "parse_attribute b a = Inl e \<Longrightarrow> e = MalformedSegment \<or> (e = InvalidColor \<and> bad_color a)"
  by (auto simp: parse_attribute_def split_colon_def bad_color_def assign_def attribute_key_def
        attribute_value_def split: if_splits option.splits)

lemma parse_attributes_error:
  "parse_attributes b xs = Inl e \<Longrightarrow> e = MalformedSegment \<or> (e = InvalidColor \<and> (\<exists>a\<in>set xs. bad_color a))"
  by (induction xs arbitrary: b) (auto split: sum.splits dest: parse_attribute_error)

lemmas string_eval = py_split.simps isspace_def lower_char_def set_bit5_def py_lower_def
  py_lstrip_def py_rstrip_def py_strip_def is_brace_def is_rbrace_def split_colon_def
  is_sentinel_def norm_key_def norm_value_def attribute_key_def attribute_value_def

lemmas int16_eval = int_space_def hex_digit_def is_hex_def strip_sign_def strip_0x_def
  py_int16_def hex_literal_def hex_digits_def

lemma py_rstrip_decomp: "s = py_rstrip p s @ rev (takeWhile p (rev s))"
proof -
  have "s = rev (takeWhile p (rev s) @ dropWhile p (rev s))"
    by (simp only: takeWhile_dropWhile_id rev_rev_ident)
  also have "\<dots> = rev (dropWhile p (rev s)) @ rev (takeWhile p (rev s))"
    by (rule rev_append)
  finally show ?thesis by (simp only: py_rstrip_def)
qed

lemma py_strip_decomp:
  "s = takeWhile p s @ py_strip p s @ rev (takeWhile p (rev (dropWhile p s)))"
proof -
  have "dropWhile p s = py_strip p s @ rev (takeWhile p (rev (dropWhile p s)))"
    unfolding py_strip_def py_lstrip_def by (rule py_rstrip_decomp)
  then have "takeWhile p s @ dropWhile p s
      = takeWhile p s @ py_strip p s @ rev (takeWhile p (rev (dropWhile p s)))" by simp
  then show ?thesis by simp
qed

lemma py_rstrip_last: "py_rstrip p s \<noteq> [] \<Longrightarrow> \<not> p (last (py_rstrip p s))"
  by (simp add: py_rstrip_def last_rev hd_dropWhile)

lemma py_rstrip_hd: "py_rstrip p s \<noteq> [] \<Longrightarrow> hd (py_rstrip p s) = hd s"
  using py_rstrip_decomp [of s p] by (metis hd_append2)

lemma py_strip_ends:
  assumes "py_strip p s \<noteq> []"
  shows "\<not> p (hd (py_strip p s))" and "\<not> p (last (py_strip p s))"
proof -
  from assms have ne: "dropWhile p s \<noteq> []"
    by (cases "dropWhile p s = []") (simp_all add: py_strip_def py_lstrip_def py_rstrip_def)
  from assms have "hd (py_strip p s) = hd (dropWhile p s)"
    unfolding py_strip_def py_lstrip_def by (rule py_rstrip_hd)
  with ne show "\<not> p (hd (py_strip p s))" by (simp add: hd_dropWhile)
  from assms show "\<not> p (last (py_strip p s))"
    unfolding py_strip_def by (rule py_rstrip_last)
qed

lemma is_hex_range:
  "is_hex c \<longleftrightarrow> (48 \<le> (of_char c :: nat) \<and> (of_char c :: nat) \<le> 57)
     \<or> (97 \<le> (of_char c :: nat) \<and> (of_char c :: nat) \<le> 102)
     \<or> (65 \<le> (of_char c :: nat) \<and> (of_char c :: nat) \<le> 70)"
  by (simp add: is_hex_def hex_digit_def Let_def)

lemma is_hex_not_space: "is_hex c \<Longrightarrow> \<not> int_space c"
  unfolding is_hex_range int_space_def Let_def by arith

lemma not_hex_chars:
  "\<not> is_hex CHR ''-''" "\<not> is_hex CHR ''+''" "\<not> is_hex CHR ''x''" "\<not> is_hex CHR ''X''"
  "\<not> is_hex CHR ''_''"
  by (simp_all add: is_hex_range)

lemma is_hex_neq:
  "is_hex c \<Longrightarrow> c \<noteq> CHR ''-'' \<and> c \<noteq> CHR ''+'' \<and> c \<noteq> CHR ''x'' \<and> c \<noteq> CHR ''X'' \<and> c \<noteq> CHR ''_''"
  using not_hex_chars by blast

lemma underscores_ok_plain: "CHR ''_'' \<notin> set ds \<Longrightarrow> underscores_ok ds"
  by (induction ds rule: underscores_ok.induct) auto

lemma py_int16_plain:
  assumes "ds \<noteq> []" and "\<forall>c\<in>set ds. is_hex c"
  shows "py_int16 ds = Some (int (hex_value 0 ds))"
proof -
  from assms obtain c cs where ds: "ds = c # cs" by (cases ds) auto
  with assms have c: "is_hex c" by simp
  have sp: "dropWhile int_space ds = ds"
    using c is_hex_not_space by (simp add: ds)
  have sg: "strip_sign ds = (False, ds)"
    using is_hex_neq [OF c] by (simp add: strip_sign_def ds)
  have nox: "\<not> prefix ''0x'' ds" "\<not> prefix ''0X'' ds"
    using assms(2) not_hex_chars(3,4) by (auto simp: prefix_def)
  have px: "strip_0x ds = ds" using nox by (simp add: strip_0x_def)
  have us: "CHR ''_'' \<notin> set ds" using assms(2) is_hex_neq by blast
  have tw: "takeWhile (\<lambda>c. is_hex c \<or> c = CHR ''_'') ds = ds"
    using assms(2) by (simp add: takeWhile_eq_all_conv)
  have dw: "dropWhile (\<lambda>c. is_hex c \<or> c = CHR ''_'') ds = []"
    using assms(2) by simp
  have fl: "filter is_hex ds = ds" using assms(2) by simp
  have "\<not> prefix ''_'' ds" using is_hex_neq [OF c] by (auto simp: ds)
  then show ?thesis
    using assms(1) by (simp add: py_int16_def sp sg px hex_literal_def tw dw hex_digits_def fl
        underscores_ok_plain [OF us])
qed

lemma strip_sign_set:
  "strip_sign s1 = (neg, s2) \<Longrightarrow> c \<in> set s1 \<Longrightarrow> c = CHR ''-'' \<or> c = CHR ''+'' \<or> c \<in> set s2"
  by (cases s1) (auto simp: strip_sign_def split: if_splits)

lemma strip_0x_set:
  assumes "c \<in> set s"
  shows "c = CHR ''0'' \<or> c = CHR ''x'' \<or> c = CHR ''X'' \<or> c = CHR ''_'' \<or> c \<in> set (strip_0x s)"
proof (cases "prefix ''0x'' s \<or> prefix ''0X'' s")
  case False
  with assms show ?thesis by (simp add: strip_0x_def)
next
  case True
  then obtain d r where s: "s = CHR ''0'' # d # r" and d: "d = CHR ''x'' \<or> d = CHR ''X''"
    by (auto simp: prefix_def)
  show ?thesis
  proof (cases "prefix ''_'' r")
    case False
    with True assms s d show ?thesis by (auto simp: strip_0x_def)
  next
    case p: True
    then obtain r' where r: "r = CHR ''_'' # r'" by (auto simp: prefix_def)
    with True assms s d show ?thesis by (auto simp: strip_0x_def)
  qed
qed

lemma hex_literal_set:
  assumes "hex_literal neg s = Some n" and "c \<in> set s"
  shows "is_hex c \<or> c = CHR ''_'' \<or> int_space c"
proof -
  let ?P = "\<lambda>c. is_hex c \<or> c = CHR ''_''"
  from assms(1) have "dropWhile int_space (dropWhile ?P s) = []"
    by (simp add: hex_literal_def hex_digits_def split: if_splits)
  then have rest: "\<forall>c\<in>set (dropWhile ?P s). int_space c"
    by (simp add: dropWhile_eq_Nil_conv)
  have "set s = set (takeWhile ?P s) \<union> set (dropWhile ?P s)"
    by (metis set_append takeWhile_dropWhile_id)
  with assms(2) consider "c \<in> set (takeWhile ?P s)" | "c \<in> set (dropWhile ?P s)" by blast
  then show ?thesis
  proof cases
    case 1
    then show ?thesis by (auto dest: set_takeWhileD)
  next
    case 2
    with rest show ?thesis by simp
  qed
qed

lemma zero_is_hex: "is_hex CHR ''0''"
  by (simp add: is_hex_range)

lemma py_int16_chars:
  assumes "py_int16 s = Some n" and "c \<in> set s"
  shows "literal_char c"
proof -
  obtain neg s2 where sg: "strip_sign (dropWhile int_space s) = (neg, s2)"
    by (cases "strip_sign (dropWhile int_space s)")
  with assms(1) have hl: "hex_literal neg (strip_0x s2) = Some n"
    by (simp add: py_int16_def)
  have "set s = set (takeWhile int_space s) \<union> set (dropWhile int_space s)"
    by (metis set_append takeWhile_dropWhile_id)
  with assms(2) consider "c \<in> set (takeWhile int_space s)" | "c \<in> set (dropWhile int_space s)"
    by blast
  then show ?thesis
  proof cases
    case 1
    then have "int_space c" by (auto dest: set_takeWhileD)
    then show ?thesis by (simp add: literal_char_def)
  next
    case 2
    from strip_sign_set [OF sg 2] consider "c = CHR ''-'' \<or> c = CHR ''+''" | "c \<in> set s2" by fast
    then show ?thesis
    proof cases
      case 1
      then show ?thesis unfolding literal_char_def by fast
    next
      case 2
      from strip_0x_set [OF 2] consider "c = CHR ''0''" | "c = CHR ''x'' \<or> c = CHR ''X'' \<or> c = CHR ''_''"
        | "c \<in> set (strip_0x s2)" by fast
      then show ?thesis
      proof cases
        case 1
        then show ?thesis using zero_is_hex unfolding literal_char_def by fast
      next
        case 2
        then show ?thesis unfolding literal_char_def by fast
      next
        case 3
        from hex_literal_set [OF hl 3] show ?thesis unfolding literal_char_def by fast
      qed
    qed
  qed
qed

lemma recognized_cases:
  assumes "key \<in> set recognized"
  obtains "key = ''title''" | "key = ''description''" | "key = ''color''" | "key = ''url''"
    | "key = ''author''" | "key = ''footer''" | "key = ''thumbnail''" | "key = ''image''"
proof -
  from assms have "key = ''title'' \<or> key = ''description'' \<or> key = ''color'' \<or> key = ''url''
    \<or> key = ''author'' \<or> key = ''footer'' \<or> key = ''thumbnail'' \<or> key = ''image''"
    unfolding recognized_def by (simp only: set_simps insert_iff empty_iff simp_thms)
  then show thesis using that by fast
qed

lemma assign_sets:
  assumes "key \<in> set recognized" and "assign b key v = Inr b'"
  shows "get_field key b' = written key v"
  using assms(1)
proof (cases rule: recognized_cases)
  case 3
  with assms(2) show ?thesis
    by (auto simp: assign_def get_field_def written_def split: option.splits)
qed (use assms(2) in \<open>auto simp: assign_def get_field_def written_def\<close>)

lemma assign_recognized:
  "assign b ''title'' v = Inr (b\<lparr>title := Some v\<rparr>)"
  "assign b ''description'' v = Inr (b\<lparr>description := Some v\<rparr>)"
  "assign b ''color'' v = (case py_int16 v of None \<Rightarrow> Inl InvalidColor | Some n \<Rightarrow> Inr (b\<lparr>color := Some n\<rparr>))"
  "assign b ''url'' v = Inr (b\<lparr>url := Some v\<rparr>)"
  "assign b ''author'' v = Inr (b\<lparr>author := Some v\<rparr>)"
  "assign b ''footer'' v = Inr (b\<lparr>footer := Some v\<rparr>)"
  "assign b ''thumbnail'' v = Inr (b\<lparr>thumbnail := Some v\<rparr>)"
  "assign b ''image'' v = Inr (b\<lparr>image_attr := Some v\<rparr>)"
  by (simp_all add: assign_def)

lemma get_field_other:
  "key \<noteq> ''title'' \<Longrightarrow> get_field key (b\<lparr>title := x\<rparr>) = get_field key b"
  "key \<noteq> ''description'' \<Longrightarrow> get_field key (b\<lparr>description := x\<rparr>) = get_field key b"
  "key \<noteq> ''color'' \<Longrightarrow> get_field key (b\<lparr>color := n\<rparr>) = get_field key b"
  "key \<noteq> ''url'' \<Longrightarrow> get_field key (b\<lparr>url := x\<rparr>) = get_field key b"
  "key \<noteq> ''author'' \<Longrightarrow> get_field key (b\<lparr>author := x\<rparr>) = get_field key b"
  "key \<noteq> ''footer'' \<Longrightarrow> get_field key (b\<lparr>footer := x\<rparr>) = get_field key b"
  "key \<noteq> ''thumbnail'' \<Longrightarrow> get_field key (b\<lparr>thumbnail := x\<rparr>) = get_field key b"
  "key \<noteq> ''image'' \<Longrightarrow> get_field key (b\<lparr>image_attr := x\<rparr>) = get_field key b"
  by (simp_all add: get_field_def)

lemma assign_other:
  assumes "key' \<noteq> key" and "assign b key' v = Inr b'"
  shows "get_field key b' = get_field key b"
proof (cases "key' \<in> set recognized")
  case False
  with assms(2) show ?thesis by (simp add: assign_unknown)
next
  case True
  then show ?thesis
  proof (cases rule: recognized_cases)
    case 1
    with assms have "b' = b\<lparr>title := Some v\<rparr>" "key \<noteq> ''title''"
      by (simp_all add: assign_recognized)
    then show ?thesis by (simp add: get_field_other)
  next
    case 2
    with assms have "b' = b\<lparr>description := Some v\<rparr>" "key \<noteq> ''description''"
      by (simp_all add: assign_recognized)
    then show ?thesis by (simp add: get_field_other)
  next
    case 3
    with assms have "\<exists>n. b' = b\<lparr>color := Some n\<rparr>" "key \<noteq> ''color''"
      by (cases "py_int16 v"; force simp: assign_recognized)+
    then obtain n where "b' = b\<lparr>color := Some n\<rparr>" "key \<noteq> ''color''"
      by (elim exE)
    then show ?thesis by (simp add: get_field_other)
  next
    case 4
    with assms have "b' = b\<lparr>url := Some v\<rparr>" "key \<noteq> ''url''"
      by (simp_all add: assign_recognized)
    then show ?thesis by (simp add: get_field_other)
  next
    case 5
    with assms have "b' = b\<lparr>author := Some v\<rparr>" "key \<noteq> ''author''"
      by (simp_all add: assign_recognized)
    then show ?thesis by (simp add: get_field_other)
  next
    case 6
    with assms have "b' = b\<lparr>footer := Some v\<rparr>" "key \<noteq> ''footer''"
      by (simp_all add: assign_recognized)
    then show ?thesis by (simp add: get_field_other)
  next
    case 7
    with assms have "b' = b\<lparr>thumbnail := Some v\<rparr>" "key \<noteq> ''thumbnail''"
      by (simp_all add: assign_recognized)
    then show ?thesis by (simp add: get_field_other)
  next
    case 8
    with assms have "b' = b\<lparr>image_attr := Some v\<rparr>" "key \<noteq> ''image''"
      by (simp_all add: assign_recognized)
    then show ?thesis by (simp add: get_field_other)
  qed
qed

lemma parse_attribute_other:
  assumes "parse_attribute b a = Inr b'" and "is_sentinel a \<or> attribute_key a \<noteq> key"
  shows "get_field key b' = get_field key b"
proof (cases "is_sentinel a")
  case True
  with assms(1) show ?thesis by (simp add: parse_attribute_sentinel)
next
  case False
  show ?thesis
  proof (cases "CHR '':'' \<in> set a")
    case True
    with False assms show ?thesis
      by (auto simp: parse_attribute_colon dest: assign_other)
  next
    case c: False
    with False assms(1) show ?thesis by (simp add: parse_attribute_no_colon)
  qed
qed

lemma parse_attributes_other:
  "parse_attributes b xs = Inr b' \<Longrightarrow> \<forall>a\<in>set xs. is_sentinel a \<or> attribute_key a \<noteq> key \<Longrightarrow>
   get_field key b' = get_field key b"
proof (induction xs arbitrary: b)
  case Nil
  then show ?case by simp
next
  case (Cons x xs)
  from Cons.prems(1) obtain b1 where b1: "parse_attribute b x = Inr b1" "parse_attributes b1 xs = Inr b'"
    by (auto split: sum.splits)
  from Cons.prems(2) have "get_field key b1 = get_field key b"
    using parse_attribute_other [OF b1(1)] by simp
  moreover have "get_field key b' = get_field key b1"
    using Cons.IH [OF b1(2)] Cons.prems(2) by simp
  ultimately show ?case by simp
qed

text \<open>
  C3. In a non-empty flag string, a segment between the \<open>$v\<close> delimiters that is not the
  \<open>{embed}\<close> sentinel and holds no colon makes the parse fail: the segment itself raises
  the malformed-segment error in every state of the builder, so the whole parse ends in an
  error, and that error is the malformed-segment one whenever no segment of the string
  carries an invalid colour (the only other error \<open>parse\<close> can raise, and likewise a
  \<open>ValueError\<close>).
\<close>

theorem missing_colon_fails:
  assumes "flags \<noteq> []" and "attribute \<in> set (py_split ''$v'' flags)"
    and "\<not> is_sentinel attribute" and "CHR '':'' \<notin> set attribute"
  shows "(\<exists>e. Builder (Some flags) = Inl e)
       \<and> parse_attribute b attribute = Inl MalformedSegment
       \<and> ((\<forall>a\<in>set (py_split ''$v'' flags). \<not> bad_color a) \<longrightarrow> Builder (Some flags) = Inl MalformedSegment)"
proof -
  have one: "parse_attribute c attribute = Inl MalformedSegment" for c
    using assms(3,4) by (simp add: parse_attribute_no_colon)
  then have "\<exists>e. parse_attributes init_builder (py_split ''$v'' flags) = Inl e"
    using assms(2) by (intro parse_attributes_fails) auto
  then obtain e where e: "Builder (Some flags) = Inl e"
    using assms(1) by (auto simp: Builder_def parse_def)
  then have "parse_attributes init_builder (py_split ''$v'' flags) = Inl e"
    using assms(1) by (simp add: Builder_def parse_def)
  from parse_attributes_error [OF this] e one show ?thesis by auto
qed

theorem missing_colon_fails_witness:
  "''notakeyvalue'' \<noteq> [] \<and> ''notakeyvalue'' \<in> set (py_split ''$v'' ''notakeyvalue'')
   \<and> \<not> is_sentinel ''notakeyvalue'' \<and> CHR '':'' \<notin> set ''notakeyvalue''
   \<and> \<not> bad_color ''notakeyvalue''
   \<and> Builder (Some ''notakeyvalue'') = Inl MalformedSegment"
proof -
  have sp: "py_split ''$v'' ''notakeyvalue'' = [''notakeyvalue'']"
    by (simp add: py_split.simps)
  have h1: "''notakeyvalue'' \<noteq> []" by simp
  have h2: "''notakeyvalue'' \<in> set (py_split ''$v'' ''notakeyvalue'')" by (simp add: sp)
  have h3: "\<not> is_sentinel ''notakeyvalue''" by (simp add: string_eval)
  have h4: "CHR '':'' \<notin> set ''notakeyvalue''" by simp
  have h5: "\<forall>a\<in>set (py_split ''$v'' ''notakeyvalue''). \<not> bad_color a"
    by (simp add: sp bad_color_def)
  have h6: "\<not> bad_color ''notakeyvalue''" by (simp add: bad_color_def)
  from missing_colon_fails [OF h1 h2 h3 h4, of init_builder] h1 h2 h3 h4 h5 h6
  show ?thesis by blast
qed

text \<open>
  C8. A segment that holds a colon and whose normalised key is none of the eight keys
  \<open>title\<close>, \<open>description\<close>, \<open>color\<close>, \<open>url\<close>, \<open>author\<close>, \<open>footer\<close>, \<open>thumbnail\<close>,
  \<open>image\<close> raises nothing and leaves the builder as it was; a parse gives the same result
  with the segment as without it.
\<close>

theorem unknown_key_ignored:
  assumes "CHR '':'' \<in> set attribute" and "attribute_key attribute \<notin> set recognized"
  shows "parse_attribute b attribute = Inr b
       \<and> parse_attributes b (before @ attribute # after) = parse_attributes b (before @ after)
       \<and> length recognized = 8 \<and> distinct recognized"
proof -
  have step: "parse_attribute c attribute = Inr c" for c
  proof (cases "is_sentinel attribute")
    case True
    then show ?thesis by (rule parse_attribute_sentinel)
  next
    case False
    with assms show ?thesis by (simp add: parse_attribute_colon assign_unknown)
  qed
  have "parse_attributes b (before @ attribute # after) = parse_attributes b (before @ after)"
    by (simp add: parse_attributes_append step split: sum.splits)
  with step show ?thesis by (simp add: recognized_def)
qed

theorem unknown_key_ignored_witness:
  "CHR '':'' \<in> set ''{colour: red}'' \<and> attribute_key ''{colour: red}'' \<notin> set recognized
   \<and> parse_attribute init_builder ''{colour: red}'' = Inr init_builder
   \<and> parse_attributes init_builder ([''{embed}''] @ ''{colour: red}'' # [''{title: Hey}''])
       = parse_attributes init_builder ([''{embed}''] @ [''{title: Hey}''])"
proof -
  have h1: "CHR '':'' \<in> set ''{colour: red}''" by simp
  have h2: "attribute_key ''{colour: red}'' \<notin> set recognized"
    by (simp add: string_eval recognized_def)
  from unknown_key_ignored [OF h1 h2, of init_builder "[''{embed}'']" "[''{title: Hey}'']"] h1 h2
  show ?thesis by blast
qed

text \<open>
  C4 (amended). The key of a segment is the text before the first colon, trimmed of white
  space, lower-cased, and then freed of every brace, opening or closing, at either end;
  the value is the text after the first colon, trimmed of white space and then freed of
  every closing brace at its end. An opening brace at the start of the value stays. What
  is removed is a run of braces of any length, not one brace.
\<close>

theorem normalisation_strips_all_braces:
  "(\<exists>pre post. py_lower (py_strip isspace key) = pre @ norm_key key @ post
        \<and> (\<forall>c\<in>set pre. is_brace c) \<and> (\<forall>c\<in>set post. is_brace c))
   \<and> (norm_key key \<noteq> [] \<longrightarrow> \<not> is_brace (hd (norm_key key)) \<and> \<not> is_brace (last (norm_key key)))
   \<and> (\<exists>post. py_strip isspace v = norm_value v @ post \<and> (\<forall>c\<in>set post. c = CHR ''}''))
   \<and> (norm_value v \<noteq> [] \<longrightarrow> last (norm_value v) \<noteq> CHR ''}'' \<and> hd (norm_value v) = hd (py_strip isspace v))
   \<and> (CHR '':'' \<in> set a \<and> \<not> is_sentinel a \<longrightarrow>
        parse_attribute b a = assign b (norm_key (takeWhile (\<lambda>c. c \<noteq> CHR '':'') a))
                                       (norm_value (tl (dropWhile (\<lambda>c. c \<noteq> CHR '':'') a))))"
proof -
  let ?t = "py_lower (py_strip isspace key)"
  have k1: "?t = takeWhile is_brace ?t @ norm_key key @ rev (takeWhile is_brace (rev (dropWhile is_brace ?t)))"
    unfolding norm_key_def by (rule py_strip_decomp)
  have k2: "\<forall>c\<in>set (takeWhile is_brace ?t). is_brace c"
    by (auto dest: set_takeWhileD)
  have k3: "\<forall>c\<in>set (rev (takeWhile is_brace (rev (dropWhile is_brace ?t)))). is_brace c"
    by (auto dest: set_takeWhileD)
  have k: "\<exists>pre post. ?t = pre @ norm_key key @ post
        \<and> (\<forall>c\<in>set pre. is_brace c) \<and> (\<forall>c\<in>set post. is_brace c)"
    using k1 k2 k3 by blast
  have ke: "norm_key key \<noteq> [] \<longrightarrow> \<not> is_brace (hd (norm_key key)) \<and> \<not> is_brace (last (norm_key key))"
    unfolding norm_key_def using py_strip_ends by blast
  let ?u = "py_strip isspace v"
  have v1: "?u = norm_value v @ rev (takeWhile is_rbrace (rev ?u))"
    unfolding norm_value_def by (rule py_rstrip_decomp)
  have v2: "\<forall>c\<in>set (rev (takeWhile is_rbrace (rev ?u))). c = CHR ''}''"
    by (auto dest: set_takeWhileD simp: is_rbrace_def)
  have vv: "\<exists>post. ?u = norm_value v @ post \<and> (\<forall>c\<in>set post. c = CHR ''}'')"
    using v1 v2 by blast
  have ve: "norm_value v \<noteq> [] \<longrightarrow> last (norm_value v) \<noteq> CHR ''}'' \<and> hd (norm_value v) = hd ?u"
    unfolding norm_value_def using py_rstrip_last [of is_rbrace ?u] py_rstrip_hd [of is_rbrace ?u]
    by (simp add: is_rbrace_def)
  have pa: "CHR '':'' \<in> set a \<and> \<not> is_sentinel a \<longrightarrow>
        parse_attribute b a = assign b (norm_key (takeWhile (\<lambda>c. c \<noteq> CHR '':'') a))
                                       (norm_value (tl (dropWhile (\<lambda>c. c \<noteq> CHR '':'') a)))"
    by (simp add: parse_attribute_def split_colon_def)
  from k ke vv ve pa show ?thesis by (intro conjI)
qed

theorem normalisation_strips_all_braces_witness:
  "norm_key '' {{Title}} '' = ''title'' \<and> norm_value '' {A}} '' = ''{A''
   \<and> \<not> is_brace (hd (norm_key '' {{Title}} '')) \<and> \<not> is_brace (last (norm_key '' {{Title}} ''))
   \<and> last (norm_value '' {A}} '') \<noteq> CHR ''}''
   \<and> hd (norm_value '' {A}} '') = hd (py_strip isspace '' {A}} '')
   \<and> CHR '':'' \<in> set ''{{Title: {A}}'' \<and> \<not> is_sentinel ''{{Title: {A}}''
   \<and> parse_attribute init_builder ''{{Title: {A}}'' = Inr (init_builder\<lparr>title := Some ''{A''\<rparr>)"
proof -
  have k: "norm_key '' {{Title}} '' = ''title''" by (simp add: string_eval)
  have v: "norm_value '' {A}} '' = ''{A''" by (simp add: string_eval)
  have kn: "norm_key '' {{Title}} '' \<noteq> []" by (simp add: k)
  have vn: "norm_value '' {A}} '' \<noteq> []" by (simp add: v)
  have c: "CHR '':'' \<in> set ''{{Title: {A}}''" by simp
  have ns: "\<not> is_sentinel ''{{Title: {A}}''" by (simp add: string_eval)
  have a: "assign init_builder (norm_key (takeWhile (\<lambda>c. c \<noteq> CHR '':'') ''{{Title: {A}}''))
             (norm_value (tl (dropWhile (\<lambda>c. c \<noteq> CHR '':'') ''{{Title: {A}}'')))
           = Inr (init_builder\<lparr>title := Some ''{A''\<rparr>)"
    by (simp add: string_eval assign_def)
  note t = normalisation_strips_all_braces [of "'' {{Title}} ''" "'' {A}} ''" "''{{Title: {A}}''" init_builder]
  from t kn have e1: "\<not> is_brace (hd (norm_key '' {{Title}} '')) \<and> \<not> is_brace (last (norm_key '' {{Title}} ''))"
    by (elim conjE) (erule (1) mp)
  from t vn have e2: "last (norm_value '' {A}} '') \<noteq> CHR ''}'' \<and> hd (norm_value '' {A}} '') = hd (py_strip isspace '' {A}} '')"
    by (elim conjE) (erule (1) mp)
  from t c ns have e3: "parse_attribute init_builder ''{{Title: {A}}'' =
      assign init_builder (norm_key (takeWhile (\<lambda>c. c \<noteq> CHR '':'') ''{{Title: {A}}''))
             (norm_value (tl (dropWhile (\<lambda>c. c \<noteq> CHR '':'') ''{{Title: {A}}'')))"
    by (elim conjE) (erule mp, rule conjI)
  from k v e1 e2 c ns e3 [unfolded a] show ?thesis by (intro conjI) (elim conjE; assumption)+
qed

text \<open>The claim as stated, "exactly one leading or trailing brace is removed, never more",
  fails on doubled braces and on a closing brace in front of the key.\<close>

theorem one_brace_only_counterexample:
  "norm_key ''{{title'' = ''title'' \<and> claimed_key ''{{title'' = ''{title''
   \<and> norm_key ''title}}'' = ''title'' \<and> claimed_key ''title}}'' = ''title}''
   \<and> norm_key ''}title{'' = ''title'' \<and> claimed_key ''}title{'' = ''}title{''
   \<and> norm_value ''A}}'' = ''A'' \<and> claimed_value ''A}}'' = ''A}''
   \<and> Builder (Some ''{{title: A}}'') = Inr (init_builder\<lparr>title := Some ''A''\<rparr>)"
proof -
  have sp: "py_split ''$v'' ''{{title: A}}'' = [''{{title: A}}'']" by (simp add: py_split.simps)
  have pa: "parse_attribute init_builder ''{{title: A}}'' = Inr (init_builder\<lparr>title := Some ''A''\<rparr>)"
    by (simp add: parse_attribute_def string_eval assign_def)
  have b: "Builder (Some ''{{title: A}}'') = Inr (init_builder\<lparr>title := Some ''A''\<rparr>)"
    by (simp add: Builder_def parse_def sp pa)
  have "norm_key ''{{title'' = ''title''" "claimed_key ''{{title'' = ''{title''"
    "norm_key ''title}}'' = ''title''" "claimed_key ''title}}'' = ''title}''"
    "norm_key ''}title{'' = ''title''" "claimed_key ''}title{'' = ''}title{''"
    "norm_value ''A}}'' = ''A''" "claimed_value ''A}}'' = ''A}''"
    by (simp_all add: string_eval claimed_key_def claimed_value_def strip_one_leading_def strip_one_trailing_def)
  with b show ?thesis by (intro conjI)
qed

text \<open>
  C5. For a segment whose key is \<open>color\<close>, the value goes through \<open>int(value, 16)\<close>: the
  segment raises, with the invalid-colour error, exactly when the value is no base-16
  literal; otherwise the integer is stored as it is, whatever its size or sign. A
  non-empty run of hexadecimal digits is always accepted, with its base-16 value, and a
  value holding a character that no base-16 literal contains is always rejected.
\<close>

theorem color_base16:
  assumes "CHR '':'' \<in> set a" and "\<not> is_sentinel a" and "attribute_key a = ''color''"
  shows "(parse_attribute b a = Inl InvalidColor \<longleftrightarrow> py_int16 (attribute_value a) = None)
       \<and> ((\<exists>e. parse_attribute b a = Inl e) \<longleftrightarrow> py_int16 (attribute_value a) = None)
       \<and> (\<forall>n. py_int16 (attribute_value a) = Some n \<longrightarrow> parse_attribute b a = Inr (b\<lparr>color := Some n\<rparr>))
       \<and> (attribute_value a \<noteq> [] \<and> (\<forall>c\<in>set (attribute_value a). is_hex c) \<longrightarrow>
            parse_attribute b a = Inr (b\<lparr>color := Some (int (hex_value 0 (attribute_value a)))\<rparr>))
       \<and> ((\<exists>c\<in>set (attribute_value a). \<not> literal_char c) \<longrightarrow> parse_attribute b a = Inl InvalidColor)"
proof -
  have pa: "parse_attribute b a =
      (case py_int16 (attribute_value a) of None \<Rightarrow> Inl InvalidColor | Some n \<Rightarrow> Inr (b\<lparr>color := Some n\<rparr>))"
    using assms by (simp add: parse_attribute_colon assign_def)
  have bad: "(\<exists>c\<in>set (attribute_value a). \<not> literal_char c) \<longrightarrow> py_int16 (attribute_value a) = None"
    using py_int16_chars [of "attribute_value a"] by (cases "py_int16 (attribute_value a)") auto
  show ?thesis
    using py_int16_plain [of "attribute_value a"] bad by (auto simp: pa split: option.splits)
qed

theorem color_base16_witness:
  "CHR '':'' \<in> set ''{color: FF0000}'' \<and> \<not> is_sentinel ''{color: FF0000}''
   \<and> attribute_key ''{color: FF0000}'' = ''color''
   \<and> parse_attribute init_builder ''{color: FF0000}'' = Inr (init_builder\<lparr>color := Some 0xFF0000\<rparr>)
   \<and> attribute_key ''{color: zz}'' = ''color''
   \<and> parse_attribute init_builder ''{color: zz}'' = Inl InvalidColor
   \<and> attribute_key ''{color: -FFFFFFF}'' = ''color''
   \<and> parse_attribute init_builder ''{color: -FFFFFFF}'' = Inr (init_builder\<lparr>color := Some (- 0xFFFFFFF)\<rparr>)"
proof -
  have c1: "CHR '':'' \<in> set ''{color: FF0000}''" and c2: "CHR '':'' \<in> set ''{color: zz}''"
    and c3: "CHR '':'' \<in> set ''{color: -FFFFFFF}''" by simp_all
  have s1: "\<not> is_sentinel ''{color: FF0000}''" and s2: "\<not> is_sentinel ''{color: zz}''"
    and s3: "\<not> is_sentinel ''{color: -FFFFFFF}''" by (simp_all add: string_eval)
  have k1: "attribute_key ''{color: FF0000}'' = ''color''" and k2: "attribute_key ''{color: zz}'' = ''color''"
    and k3: "attribute_key ''{color: -FFFFFFF}'' = ''color''" by (simp_all add: string_eval)
  have v1: "attribute_value ''{color: FF0000}'' = ''FF0000''" and v2: "attribute_value ''{color: zz}'' = ''zz''"
    and v3: "attribute_value ''{color: -FFFFFFF}'' = ''-FFFFFFF''" by (simp_all add: string_eval)
  have h: "''FF0000'' \<noteq> [] \<and> (\<forall>c\<in>set ''FF0000''. is_hex c)" by (simp add: is_hex_range)
  have hv: "int (hex_value 0 ''FF0000'') = 0xFF0000" by (simp add: hex_digit_def)
  have z: "\<exists>c\<in>set ''zz''. \<not> literal_char c" by (simp add: literal_char_def is_hex_range int_space_def)
  have n: "py_int16 ''-FFFFFFF'' = Some (- 0xFFFFFFF)" by (simp add: int16_eval)
  have r1: "parse_attribute init_builder ''{color: FF0000}'' = Inr (init_builder\<lparr>color := Some 0xFF0000\<rparr>)"
    using color_base16 [OF c1 s1 k1, of init_builder] h unfolding v1 hv by fast
  have r2: "parse_attribute init_builder ''{color: zz}'' = Inl InvalidColor"
    using color_base16 [OF c2 s2 k2, of init_builder] z unfolding v2 by fast
  have r3: "parse_attribute init_builder ''{color: -FFFFFFF}'' = Inr (init_builder\<lparr>color := Some (- 0xFFFFFFF)\<rparr>)"
    using color_base16 [OF c3 s3 k3, of init_builder] n unfolding v3 by fast
  from c1 s1 k1 r1 k2 r2 k3 r3 show ?thesis by (intro conjI)
qed

text \<open>
  C7. When the parse of a flag string succeeds, the attribute named by a recognised key
  holds what the last segment with that key wrote: the segments after it that are the
  sentinel or carry another key leave it alone.
\<close>

theorem last_write_wins:
  assumes "flags \<noteq> []" and "Builder (Some flags) = Inr b"
    and "py_split ''$v'' flags = before @ attribute # after"
    and "CHR '':'' \<in> set attribute" and "\<not> is_sentinel attribute"
    and "attribute_key attribute \<in> set recognized"
    and "\<forall>a\<in>set after. is_sentinel a \<or> attribute_key a \<noteq> attribute_key attribute"
  shows "get_field (attribute_key attribute) b = written (attribute_key attribute) (attribute_value attribute)"
proof -
  from assms(1,2,3) have "parse_attributes init_builder (before @ attribute # after) = Inr b"
    by (simp add: Builder_def parse_def)
  then obtain b1 b2 where b1: "parse_attributes init_builder before = Inr b1"
    and b2: "parse_attribute b1 attribute = Inr b2" and b3: "parse_attributes b2 after = Inr b"
    by (auto simp: parse_attributes_append split: sum.splits)
  from b2 assms(4,5) have "assign b1 (attribute_key attribute) (attribute_value attribute) = Inr b2"
    by (simp add: parse_attribute_colon)
  from assign_sets [OF assms(6) this] parse_attributes_other [OF b3 assms(7)]
  show ?thesis by simp
qed

theorem last_write_wins_witness:
  "''{title: A}$v{title: B}'' \<noteq> []
   \<and> Builder (Some ''{title: A}$v{title: B}'') = Inr (init_builder\<lparr>title := Some ''B''\<rparr>)
   \<and> py_split ''$v'' ''{title: A}$v{title: B}'' = [''{title: A}''] @ ''{title: B}'' # []
   \<and> CHR '':'' \<in> set ''{title: B}'' \<and> \<not> is_sentinel ''{title: B}''
   \<and> attribute_key ''{title: B}'' \<in> set recognized
   \<and> get_field ''title'' (init_builder\<lparr>title := Some ''B''\<rparr>) = Some (FStr ''B'')"
proof -
  have sp: "py_split ''$v'' ''{title: A}$v{title: B}'' = [''{title: A}''] @ ''{title: B}'' # []"
    by (simp add: py_split.simps)
  have k: "attribute_key ''{title: B}'' = ''title''" by (simp add: string_eval)
  have v: "attribute_value ''{title: B}'' = ''B''" by (simp add: string_eval)
  have h1: "''{title: A}$v{title: B}'' \<noteq> []" by simp
  have pa: "parse_attribute init_builder ''{title: A}'' = Inr (init_builder\<lparr>title := Some ''A''\<rparr>)"
    by (simp add: parse_attribute_def string_eval assign_def)
  have pb: "parse_attribute (init_builder\<lparr>title := Some ''A''\<rparr>) ''{title: B}'' = Inr (init_builder\<lparr>title := Some ''B''\<rparr>)"
    by (simp add: parse_attribute_def string_eval assign_def)
  have h2: "Builder (Some ''{title: A}$v{title: B}'') = Inr (init_builder\<lparr>title := Some ''B''\<rparr>)"
    using sp pa pb by (simp add: Builder_def parse_def)
  have h4: "CHR '':'' \<in> set ''{title: B}''" by simp
  have h5: "\<not> is_sentinel ''{title: B}''" by (simp add: string_eval)
  have h6: "attribute_key ''{title: B}'' \<in> set recognized" by (simp add: k recognized_def)
  have h7: "\<forall>a\<in>set []. is_sentinel a \<or> attribute_key a \<noteq> attribute_key ''{title: B}''" by simp
  have w: "written ''title'' ''B'' = Some (FStr ''B'')" by (simp add: written_def)
  from last_write_wins [OF h1 h2 sp h4 h5 h6 h7] have
    "get_field ''title'' (init_builder\<lparr>title := Some ''B''\<rparr>) = Some (FStr ''B'')"
    by (simp only: k v w)
  with h1 h2 sp h4 h5 h6 show ?thesis by blast
qed

section \<open>Properties of the placeholder table\<close>

text \<open>
  C9. When several event arguments are supplied, the table comes from the first truthy one
  in the order user, level, xp, message, and the others contribute nothing: the result is
  the one obtained with the other arguments left out.
\<close>

theorem mapping_priority:
  "mapping fd (Some u) m l x = mapping fd (Some u) None None None
   \<and> (int_truthy l \<longrightarrow> mapping fd None m l x = mapping fd None None l None)
   \<and> (\<not> int_truthy l \<and> int_truthy x \<longrightarrow> mapping fd None m l x = mapping fd None None None x)
   \<and> (\<not> int_truthy l \<and> \<not> int_truthy x \<longrightarrow> mapping fd None m l x = mapping fd None m None None)
   \<and> mapping fd (Some u) m l x = user_table fd u
   \<and> (int_truthy l \<longrightarrow> mapping fd None m l x = level_table (the l))
   \<and> (\<not> int_truthy l \<and> int_truthy x \<longrightarrow> mapping fd None m l x = xp_table (the x))
   \<and> (\<not> int_truthy l \<and> \<not> int_truthy x \<longrightarrow> mapping fd None (Some msg) l x = message_table fd msg)"
  by (auto simp: mapping_def int_truthy_def)

theorem mapping_priority_witness:
  "int_truthy (Some 5)
   \<and> mapping example_format_dt None (Some example_message) (Some 5) (Some 9) = level_table 5
   \<and> \<not> int_truthy (Some 0) \<and> int_truthy (Some 9)
   \<and> mapping example_format_dt None (Some example_message) (Some 0) (Some 9) = xp_table 9
   \<and> \<not> int_truthy None
   \<and> mapping example_format_dt None (Some example_message) (Some 0) None
       = message_table example_format_dt example_message"
proof -
  have t: "int_truthy (Some 5)" "\<not> int_truthy (Some 0)" "int_truthy (Some 9)" "\<not> int_truthy None"
    by (simp_all add: int_truthy_def)
  have a: "mapping example_format_dt None (Some example_message) (Some 5) (Some 9) = level_table 5"
    using t mapping_priority [of example_format_dt example_member "Some example_message" "Some 5" "Some 9" example_message]
    by (metis option.sel)
  have b: "mapping example_format_dt None (Some example_message) (Some 0) (Some 9) = xp_table 9"
    using t mapping_priority [of example_format_dt example_member "Some example_message" "Some 0" "Some 9" example_message]
    by (metis option.sel)
  have c: "mapping example_format_dt None (Some example_message) (Some 0) None
       = message_table example_format_dt example_message"
    using t mapping_priority [of example_format_dt example_member "Some example_message" "Some 0" None example_message]
    by metis
  from t a b c show ?thesis by blast
qed

text \<open>
  C10. With no user, a level of 0 (or an xp of 0) gives the table that the call gives
  without it; with nothing else supplied the table is empty, and a text such as
  \<open>{level}\<close> or \<open>{xp.previous}\<close> comes back from the substitution as it went in.
\<close>

theorem zero_level_absent:
  "mapping fd None m (Some 0) x = mapping fd None m None x
   \<and> mapping fd None m l (Some 0) = mapping fd None m l None
   \<and> mapping fd None None (Some 0) None = []
   \<and> mapping fd None None None (Some 0) = []
   \<and> replace_placeholders (mapping fd None None (Some 0) None) (PyStr text) = PyStr text
   \<and> replace_placeholders (mapping fd None None None (Some 0)) (PyStr text) = PyStr text"
  by (simp add: mapping_def int_truthy_def)

section \<open>Properties of the substitution\<close>

lemmas table_eval = level_table_def xp_table_def truthy_def py_str_def py_replace_def
  replace_from.simps str_int_def digits.simps digit_char_def

lemma replace_from_absent: "\<not> sublist old s \<Longrightarrow> replace_from old new s = s"
proof (induction old new s rule: replace_from.induct)
  case (1 old new s)
  show ?case
  proof (cases "s = []")
    case True
    then show ?thesis by (simp add: replace_from.simps)
  next
    case False
    from "1.prems" have np: "\<not> prefix old s" by (auto simp: prefix_imp_sublist)
    from "1.prems" False have "\<not> sublist old (tl s)"
      by (cases s) (auto simp: sublist_Cons_right)
    with "1.IH"(2) False np have "replace_from old new (tl s) = tl s" by simp
    with False np show ?thesis by (subst replace_from.simps) simp
  qed
qed

lemma py_replace_absent: "\<not> sublist old s \<Longrightarrow> py_replace s old new = s"
  by (cases "old = []") (simp_all add: py_replace_def replace_from_absent)

lemma replace_text_absent:
  "\<forall>p\<in>set mappings. \<not> sublist (fst p) s \<Longrightarrow> replace_text s mappings = s"
  by (induction mappings) (auto simp: py_replace_absent)

lemma shape_preserved: "shape_of (replace_placeholders mappings x) = shape_of x"
  by (induction x) (auto simp: list.map_comp comp_def)

lemma token_free_id: "token_free mappings x \<Longrightarrow> replace_placeholders mappings x = x"
proof (induction x)
  case (PyStr s)
  then show ?case by (simp add: token_free_def replace_text_absent)
next
  case (PyDict items)
  have "map (map_prod id (replace_placeholders mappings)) items = map (\<lambda>p. p) items"
  proof (rule map_cong [OF refl])
    fix p assume p: "p \<in> set items"
    obtain k v where kv: "p = (k, v)" by (cases p)
    from PyDict.prems p kv have "token_free mappings v"
      by (fastforce simp: token_free_def)
    with PyDict.IH [of p v] p kv show "map_prod id (replace_placeholders mappings) p = p"
      by simp
  qed
  then show ?case by simp
next
  case (PyList items)
  have "map (replace_placeholders mappings) items = map (\<lambda>x. x) items"
  proof (rule map_cong [OF refl])
    fix x assume x: "x \<in> set items"
    with PyList.prems have "token_free mappings x" by (fastforce simp: token_free_def)
    with PyList.IH [OF x] show "replace_placeholders mappings x = x" by simp
  qed
  then show ?case by simp
next
  case (PyOther x)
  then show ?case by simp
qed

text \<open>
  C6. \<open>replace_placeholders\<close> is a total function of its argument: it gives a value for
  every string, dictionary, list and other value, with no failing branch. The result has
  the shape of the argument: a dictionary keeps its keys, in order, and each value is the
  substitution of the value it had; a list keeps its length and order, element by
  element; any other value comes back as it is; and a value none of whose strings holds
  a key of the table comes back equal to itself.
\<close>

theorem substitute_shape_preserving:
  "shape_of (replace_placeholders mappings x) = shape_of x
   \<and> (\<exists>items'. replace_placeholders mappings (PyDict items) = PyDict items'
        \<and> map fst items' = map fst items
        \<and> map snd items' = map (replace_placeholders mappings) (map snd items))
   \<and> (\<exists>xs'. replace_placeholders mappings (PyList xs) = PyList xs'
        \<and> length xs' = length xs
        \<and> (\<forall>i<length xs. xs' ! i = replace_placeholders mappings (xs ! i)))
   \<and> replace_placeholders mappings (PyOther y) = PyOther y
   \<and> (token_free mappings x \<longrightarrow> replace_placeholders mappings x = x)"
  by (simp add: shape_preserved token_free_id comp_def)

theorem substitute_shape_preserving_witness:
  "token_free (level_table 5) (PyList [PyStr ''hello'', PyOther ()] :: (string, unit) pyobj)
   \<and> replace_placeholders (level_table 5) (PyList [PyStr ''hello'', PyOther ()] :: (string, unit) pyobj)
       = PyList [PyStr ''hello'', PyOther ()]
   \<and> replace_placeholders (level_table 5)
         (PyDict [(''a'', PyStr ''{level}''), (''b'', PyList [PyStr ''{level.previous}''])] :: (string, unit) pyobj)
       = PyDict [(''a'', PyStr ''5''), (''b'', PyList [PyStr ''4''])]
   \<and> shape_of (replace_placeholders (level_table 5)
         (PyDict [(''a'', PyStr ''{level}''), (''b'', PyList [PyStr ''{level.previous}''])] :: (string, unit) pyobj))
       = SDict [(''a'', SStr), (''b'', SList [SStr])]"
proof -
  let ?x = "PyList [PyStr ''hello'', PyOther ()] :: (string, unit) pyobj"
  let ?d = "PyDict [(''a'', PyStr ''{level}''), (''b'', PyList [PyStr ''{level.previous}''])] :: (string, unit) pyobj"
  have tf: "token_free (level_table 5) ?x"
    by (simp add: token_free_def level_table_def sublist_Cons_right)
  have r: "replace_placeholders (level_table 5) ?d = PyDict [(''a'', PyStr ''5''), (''b'', PyList [PyStr ''4''])]"
    by (simp add: table_eval)
  have sh: "shape_of ?d = SDict [(''a'', SStr), (''b'', SList [SStr])]" by simp
  note t = substitute_shape_preserving [of "level_table 5" ?x "[]" "[]" "()"]
  from t tf have id: "replace_placeholders (level_table 5) ?x = ?x" by (elim conjE) (erule (1) mp)
  note t2 = substitute_shape_preserving [of "level_table 5" ?d "[]" "[]" "()"]
  from t2 have "shape_of (replace_placeholders (level_table 5) ?d) = shape_of ?d" by (elim conjE)
  with sh have s2: "shape_of (replace_placeholders (level_table 5) ?d) = SDict [(''a'', SStr), (''b'', SList [SStr])]"
    by (simp only:)
  from tf id r s2 show ?thesis by (intro conjI)
qed

lemma replace_from_first:
  assumes "t \<noteq> []" and "\<not> sublist t (a @ butlast t)"
  shows "replace_from t new (a @ t @ b) = a @ new @ replace_from t new b"
  using assms(2)
proof (induction a)
  case Nil
  from assms(1) show ?case by (subst replace_from.simps) simp
next
  case (Cons c a)
  from assms(1) obtain u l where t: "t = u @ [l]" by (cases t rule: rev_cases) auto
  have np: "\<not> prefix t ((c # a) @ t @ b)"
  proof
    assume "prefix t ((c # a) @ t @ b)"
    then obtain zs where "(c # a) @ t @ b = t @ zs" by (auto simp: prefix_def)
    then have "take (length t) ((c # a) @ t @ b) = t" by simp
    then have "take (length t) (((c # a) @ u) @ (l # b)) = t" by (simp add: t)
    then have "take (length t) ((c # a) @ u) = t" by (simp add: t)
    then have "prefix t ((c # a) @ u)" by (metis take_is_prefix)
    then have "sublist t ((c # a) @ butlast t)" by (simp add: t prefix_imp_sublist)
    with Cons.prems show False by simp
  qed
  from Cons.prems have "\<not> sublist t (a @ butlast t)"
    by (auto simp: sublist_Cons_right)
  from Cons.IH [OF this] np show ?case
    by (subst replace_from.simps) simp
qed

lemma py_replace_first:
  "t \<noteq> [] \<Longrightarrow> \<not> sublist t (a @ butlast t) \<Longrightarrow>
   py_replace (a @ t @ b) t new = a @ new @ py_replace b t new"
  by (simp add: py_replace_def replace_from_first)

lemma replace_text_filter:
  "replace_text s mappings = replace_text s (filter (\<lambda>p. truthy (snd p)) mappings)"
  by (induction mappings arbitrary: s) auto

text \<open>
  C2 (amended). On a string, the substitution goes through the table in order. An entry
  whose value is truthy (not \<open>None\<close>, not the integer 0, not the empty string) has every
  occurrence of its token replaced by \<open>str\<close> of the value: the text up to the first
  occurrence stays, the occurrence becomes the value, and the replacement goes on behind
  it; a text without the token is unchanged. An entry whose value is \<open>None\<close>, 0 or the
  empty string takes no part: the result is the one of the table without it, and its
  token stays in the text.
\<close>

theorem truthy_values_replaced:
  "(truthy v \<longrightarrow> replace_text s ((t, v) # mappings) = replace_text (py_replace s t (py_str v)) mappings)
   \<and> (\<not> truthy v \<longrightarrow> replace_text s ((t, v) # mappings) = replace_text s mappings)
   \<and> replace_text s mappings = replace_text s (filter (\<lambda>p. truthy (snd p)) mappings)
   \<and> (truthy v \<longleftrightarrow> v \<noteq> VNone \<and> v \<noteq> VInt 0 \<and> v \<noteq> VStr [])
   \<and> (t \<noteq> [] \<and> \<not> sublist t (a @ butlast t) \<longrightarrow>
        py_replace (a @ t @ b) t new = a @ new @ py_replace b t new)
   \<and> (\<not> sublist t s \<longrightarrow> py_replace s t new = s)
   \<and> replace_placeholders mappings (PyStr s) = PyStr (replace_text s mappings)"
proof -
  have tr: "truthy v \<longleftrightarrow> v \<noteq> VNone \<and> v \<noteq> VInt 0 \<and> v \<noteq> VStr []"
    by (cases v) (simp_all add: truthy_def)
  have fl: "replace_text s mappings = replace_text s (filter (\<lambda>p. truthy (snd p)) mappings)"
    by (rule replace_text_filter)
  have fi: "t \<noteq> [] \<and> \<not> sublist t (a @ butlast t) \<longrightarrow>
        py_replace (a @ t @ b) t new = a @ new @ py_replace b t new"
    by (simp add: py_replace_first)
  have ab: "\<not> sublist t s \<longrightarrow> py_replace s t new = s"
    by (simp add: py_replace_absent)
  have c1: "truthy v \<longrightarrow> replace_text s ((t, v) # mappings) = replace_text (py_replace s t (py_str v)) mappings"
    by simp
  have c2: "\<not> truthy v \<longrightarrow> replace_text s ((t, v) # mappings) = replace_text s mappings"
    by simp
  have c7: "replace_placeholders mappings (PyStr s) = PyStr (replace_text s mappings)" by simp
  from c1 c2 fl tr fi ab c7 show ?thesis by (intro conjI)
qed

theorem truthy_values_replaced_witness:
  "truthy (VStr ''Ann'')
   \<and> replace_text ''hi {user.name}, {user.name}!'' [(''{user.name}'', VStr ''Ann'')] = ''hi Ann, Ann!''
   \<and> \<not> truthy VNone
   \<and> replace_text ''{guild.icon}'' [(''{guild.icon}'', VNone)] = ''{guild.icon}''
   \<and> ''{level}'' \<noteq> [] \<and> \<not> sublist ''{level}'' (''lvl '' @ butlast ''{level}'')
   \<and> py_replace (''lvl '' @ ''{level}'' @ ''{level}!'') ''{level}'' ''5'' = ''lvl 55!''
   \<and> \<not> sublist ''{xp}'' ''lvl''
   \<and> py_replace ''lvl'' ''{xp}'' ''7'' = ''lvl''"
proof -
  have h1: "truthy (VStr ''Ann'')" and h2: "\<not> truthy VNone" by (simp_all add: truthy_def)
  have "replace_text ''hi {user.name}, {user.name}!'' [(''{user.name}'', VStr ''Ann'')]
      = replace_text (py_replace ''hi {user.name}, {user.name}!'' ''{user.name}'' (py_str (VStr ''Ann''))) []"
    by (rule truthy_values_replaced [THEN conjunct1, THEN mp, OF h1])
  also have "\<dots> = ''hi Ann, Ann!''" by (simp add: table_eval)
  finally have r1: "replace_text ''hi {user.name}, {user.name}!'' [(''{user.name}'', VStr ''Ann'')] = ''hi Ann, Ann!''" .
  have "replace_text ''{guild.icon}'' [(''{guild.icon}'', VNone)] = replace_text ''{guild.icon}'' []"
    by (rule truthy_values_replaced [THEN conjunct2, THEN conjunct1, THEN mp, OF h2])
  then have r2: "replace_text ''{guild.icon}'' [(''{guild.icon}'', VNone)] = ''{guild.icon}''" by simp
  have h3: "''{level}'' \<noteq> []" by simp
  have h4: "\<not> sublist ''{level}'' (''lvl '' @ butlast ''{level}'')" by (simp add: sublist_Cons_right)
  have "py_replace (''lvl '' @ ''{level}'' @ ''{level}!'') ''{level}'' ''5''
      = ''lvl '' @ ''5'' @ py_replace ''{level}!'' ''{level}'' ''5''"
    by (rule truthy_values_replaced [THEN conjunct2, THEN conjunct2, THEN conjunct2, THEN conjunct2,
          THEN conjunct1, THEN mp, OF conjI [OF h3 h4]])
  also have "\<dots> = ''lvl 55!''" by (simp add: table_eval)
  finally have r3: "py_replace (''lvl '' @ ''{level}'' @ ''{level}!'') ''{level}'' ''5'' = ''lvl 55!''" .
  have h5: "\<not> sublist ''{xp}'' ''lvl''" by (simp add: sublist_Cons_right)
  have r4: "py_replace ''lvl'' ''{xp}'' ''7'' = ''lvl''"
    by (rule truthy_values_replaced [THEN conjunct2, THEN conjunct2, THEN conjunct2, THEN conjunct2,
          THEN conjunct2, THEN conjunct1, THEN mp, OF h5])
  from h1 r1 h2 r2 h3 h4 r3 h5 r4 show ?thesis by (intro conjI)
qed

text \<open>The claim as stated, "each token whose mapped value is non-null is replaced by the
  stringified value", fails for the values 0 and the empty string: a guild without boosts
  keeps the text \<open>{guild.boost_count}\<close>, where the claim gives \<open>0\<close>.\<close>

theorem zero_value_counterexample:
  "map_of (mapping example_format_dt (Some example_member) None None None) ''{guild.boost_count}'' = Some (VInt 0)
   \<and> VInt 0 \<noteq> VNone \<and> py_str (VInt 0) = ''0''
   \<and> replace_placeholders (mapping example_format_dt (Some example_member) None None None)
         (PyStr ''{guild.boost_count}'' :: (string, unit) pyobj) = PyStr ''{guild.boost_count}''
   \<and> replace_placeholders [(''{message.content}'', VStr [])]
         (PyStr ''{message.content}'' :: (string, unit) pyobj) = PyStr ''{message.content}''"
proof -
  have m: "mapping example_format_dt (Some example_member) None None None
      = user_table example_format_dt example_member"
    by (simp add: mapping_def)
  have a: "map_of (user_table example_format_dt example_member) ''{guild.boost_count}'' = Some (VInt 0)"
    by (simp add: user_table_def example_member_def example_guild_def)
  have b: "py_str (VInt 0) = ''0''" by (simp add: table_eval)
  have c: "replace_text ''{guild.boost_count}'' (user_table example_format_dt example_member) = ''{guild.boost_count}''"
    by (simp add: user_table_def example_member_def example_guild_def example_format_dt_def opt_url_def table_eval)
  have d: "replace_text ''{message.content}'' [(''{message.content}'', VStr [])] = ''{message.content}''"
    by (simp add: truthy_def)
  from a b c d show ?thesis by (simp add: m)
qed

lemma is_token_iff: "is_token t \<longleftrightarrow> (\<exists>b. t = CHR ''{'' # b @ [CHR ''}''] \<and> brace_free b)"
proof
  assume "is_token t"
  then obtain r where t: "t = CHR ''{'' # r" and r: "r \<noteq> []" "last r = CHR ''}''" "brace_free (butlast r)"
    by (cases t) (auto simp: is_token_def)
  from r(1,2) have "r = butlast r @ [CHR ''}'']" by (metis append_butlast_last_id)
  with t r(3) show "\<exists>b. t = CHR ''{'' # b @ [CHR ''}''] \<and> brace_free b" by blast
next
  assume "\<exists>b. t = CHR ''{'' # b @ [CHR ''}''] \<and> brace_free b"
  then show "is_token t" by (auto simp: is_token_def)
qed

lemma flat_open:
  "flat True cs \<Longrightarrow> brace_free cs \<or> (\<exists>u r. cs = u @ CHR ''}'' # r \<and> brace_free u \<and> flat False r)"
proof (induction cs)
  case Nil
  then show ?case by (simp add: brace_free_def)
next
  case (Cons c cs)
  show ?case
  proof (cases "c = CHR ''}''")
    case True
    with Cons.prems have "flat False cs" by simp
    with True have "c # cs = [] @ CHR ''}'' # cs \<and> brace_free [] \<and> flat False cs"
      by (simp add: brace_free_def)
    then show ?thesis by blast
  next
    case False
    with Cons.prems have c: "c \<noteq> CHR ''{''" and f: "flat True cs" by (auto split: if_splits)
    from Cons.IH [OF f] show ?thesis
    proof
      assume "brace_free cs"
      with c False show ?thesis by (simp add: brace_free_def)
    next
      assume "\<exists>u r. cs = u @ CHR ''}'' # r \<and> brace_free u \<and> flat False r"
      then obtain u r where "cs = u @ CHR ''}'' # r" "brace_free u" "flat False r" by blast
      with c False have "c # cs = (c # u) @ CHR ''}'' # r \<and> brace_free (c # u) \<and> flat False r"
        by (simp add: brace_free_def)
      then show ?thesis by blast
    qed
  qed
qed

lemma flat_imp_flat_str: "flat False s \<Longrightarrow> flat_str s"
proof (induction "length s" arbitrary: s rule: less_induct)
  case less
  show ?case
  proof (cases s)
    case Nil
    then show ?thesis by (simp add: flat_str.Nil)
  next
    case (Cons c cs)
    show ?thesis
    proof (cases "c = CHR ''{''")
      case False
      with less.prems Cons have "flat False cs" by (auto split: if_splits)
      with less.hyps [of cs] Cons have "flat_str cs" by simp
      with False Cons show ?thesis by (simp add: flat_str.Plain)
    next
      case True
      with less.prems Cons have "flat True cs" by simp
      from flat_open [OF this] show ?thesis
      proof
        assume "brace_free cs"
        with True Cons show ?thesis by (simp add: flat_str.Open)
      next
        assume "\<exists>u r. cs = u @ CHR ''}'' # r \<and> brace_free u \<and> flat False r"
        then obtain u r where ur: "cs = u @ CHR ''}'' # r" "brace_free u" "flat False r" by blast
        with less.hyps [of r] Cons have "flat_str r" by simp
        with ur True Cons show ?thesis by (simp add: flat_str.Tok)
      qed
    qed
  qed
qed

lemma rf_nil: "replace_from t v [] = []"
  by (simp add: replace_from.simps)

lemma rf_no_prefix: "\<not> prefix t (c # x) \<Longrightarrow> replace_from t v (c # x) = c # replace_from t v x"
  by (subst replace_from.simps) simp

lemma token_hd: "is_token t \<Longrightarrow> \<exists>r. t = CHR ''{'' # r"
  by (auto simp: is_token_iff)

lemma rf_plain:
  assumes "is_token t" and "c \<noteq> CHR ''{''"
  shows "replace_from t v (c # x) = c # replace_from t v x"
proof -
  from token_hd [OF assms(1)] assms(2) have "\<not> prefix t (c # x)" by auto
  then show ?thesis by (rule rf_no_prefix)
qed

lemma rf_brace_free:
  "is_token t \<Longrightarrow> brace_free u \<Longrightarrow> replace_from t v (u @ x) = u @ replace_from t v x"
  by (induction u) (auto simp: rf_plain brace_free_def)

lemma rf_self:
  assumes "is_token t"
  shows "replace_from t v (t @ x) = v @ replace_from t v x"
proof -
  from token_hd [OF assms] have "t \<noteq> []" by auto
  then show ?thesis by (subst replace_from.simps) simp
qed

lemma takeWhile_body:
  "brace_free b \<Longrightarrow> takeWhile (\<lambda>c. c \<noteq> CHR ''}'') (b @ CHR ''}'' # y) = b"
  by (induction b) (auto simp: brace_free_def)

lemma token_prefix_eq:
  assumes "brace_free b" and "brace_free u" and "prefix (b @ [CHR ''}'']) (u @ CHR ''}'' # x)"
  shows "b = u"
proof -
  from assms(3) obtain z where "u @ CHR ''}'' # x = (b @ [CHR ''}'']) @ z" by (auto simp: prefix_def)
  then have "u @ CHR ''}'' # x = b @ CHR ''}'' # z" by simp
  then have "takeWhile (\<lambda>c. c \<noteq> CHR ''}'') (u @ CHR ''}'' # x) = takeWhile (\<lambda>c. c \<noteq> CHR ''}'') (b @ CHR ''}'' # z)"
    by simp
  with assms(1,2) show ?thesis by (simp add: takeWhile_body)
qed

lemma rf_other:
  assumes "is_token t" and "brace_free u" and "t \<noteq> CHR ''{'' # u @ [CHR ''}'']"
  shows "replace_from t v (CHR ''{'' # u @ CHR ''}'' # x) = CHR ''{'' # u @ CHR ''}'' # replace_from t v x"
proof -
  from assms(1) obtain b where t: "t = CHR ''{'' # b @ [CHR ''}'']" and b: "brace_free b"
    by (auto simp: is_token_iff)
  have "\<not> prefix t (CHR ''{'' # u @ CHR ''}'' # x)"
  proof
    assume "prefix t (CHR ''{'' # u @ CHR ''}'' # x)"
    then have "prefix (b @ [CHR ''}'']) (u @ CHR ''}'' # x)" by (simp add: t)
    from token_prefix_eq [OF b assms(2) this] assms(3) t show False by simp
  qed
  then have "replace_from t v (CHR ''{'' # u @ CHR ''}'' # x) = CHR ''{'' # replace_from t v (u @ CHR ''}'' # x)"
    by (rule rf_no_prefix)
  also have "replace_from t v (u @ CHR ''}'' # x) = u @ replace_from t v (CHR ''}'' # x)"
    using assms(1,2) by (rule rf_brace_free)
  also have "replace_from t v (CHR ''}'' # x) = CHR ''}'' # replace_from t v x"
    using assms(1) by (rule rf_plain) simp
  finally show ?thesis .
qed

lemma rf_open:
  assumes "is_token t" and "brace_free u"
  shows "replace_from t v (CHR ''{'' # u) = CHR ''{'' # u"
proof -
  from assms(1) obtain b where t: "t = CHR ''{'' # b @ [CHR ''}'']" by (auto simp: is_token_iff)
  have "\<not> prefix t (CHR ''{'' # u)"
  proof
    assume "prefix t (CHR ''{'' # u)"
    then have "set t \<subseteq> set (CHR ''{'' # u)" by (rule set_mono_prefix)
    with t have "CHR ''}'' \<in> set (CHR ''{'' # u)" by auto
    with assms(2) show False by (simp add: brace_free_def)
  qed
  then have "replace_from t v (CHR ''{'' # u) = CHR ''{'' # replace_from t v u" by (rule rf_no_prefix)
  also have "replace_from t v u = u"
    using rf_brace_free [OF assms, of v "[]"] by (simp add: rf_nil)
  finally show ?thesis .
qed

lemma flat_str_append: "brace_free v \<Longrightarrow> flat_str s \<Longrightarrow> flat_str (v @ s)"
  by (induction v) (auto simp: brace_free_def intro: flat_str.Plain)

lemma rf_hit:
  "brace_free u \<Longrightarrow>
   replace_from (CHR ''{'' # u @ [CHR ''}'']) v (CHR ''{'' # u @ CHR ''}'' # x)
     = v @ replace_from (CHR ''{'' # u @ [CHR ''}'']) v x"
  using rf_self [of "CHR ''{'' # u @ [CHR ''}'']" v x] by (simp add: is_token_iff)

lemma rf_flat:
  assumes "flat_str s" and "is_token t" and "brace_free v"
  shows "flat_str (replace_from t v s)"
  using assms(1)
proof (induction rule: flat_str.induct)
  case Nil
  then show ?case by (simp add: rf_nil flat_str.Nil)
next
  case (Plain c s)
  then show ?case by (simp add: rf_plain [OF assms(2)] flat_str.Plain)
next
  case (Open u)
  then show ?case by (simp add: rf_open [OF assms(2)] flat_str.Open)
next
  case (Tok u s)
  show ?case
  proof (cases "t = CHR ''{'' # u @ [CHR ''}'']")
    case True
    with Tok assms(3) show ?thesis
      by (simp add: rf_hit flat_str_append)
  next
    case False
    with Tok show ?thesis
      by (simp add: rf_other [OF assms(2)] flat_str.Tok)
  qed
qed

lemma rf_commute:
  assumes "flat_str s" and "is_token t1" and "is_token t2" and "t1 \<noteq> t2"
    and "brace_free v1" and "brace_free v2"
  shows "replace_from t1 v1 (replace_from t2 v2 s) = replace_from t2 v2 (replace_from t1 v1 s)"
  using assms(1)
proof (induction rule: flat_str.induct)
  case Nil
  then show ?case by (simp add: rf_nil)
next
  case (Plain c s)
  then show ?case by (simp add: rf_plain [OF assms(2)] rf_plain [OF assms(3)])
next
  case (Open u)
  then show ?case by (simp add: rf_open [OF assms(2)] rf_open [OF assms(3)])
next
  case (Tok u s)
  let ?w = "CHR ''{'' # u @ [CHR ''}'']"
  consider "t1 = ?w" "t2 \<noteq> ?w" | "t2 = ?w" "t1 \<noteq> ?w" | "t1 \<noteq> ?w" "t2 \<noteq> ?w"
    using assms(4) by fast
  then show ?case
  proof cases
    case 1
    have "replace_from t1 v1 (replace_from t2 v2 (CHR ''{'' # u @ CHR ''}'' # s))
        = replace_from t1 v1 (CHR ''{'' # u @ CHR ''}'' # replace_from t2 v2 s)"
      using 1 Tok.hyps(1) by (simp add: rf_other [OF assms(3)])
    also have "\<dots> = v1 @ replace_from t1 v1 (replace_from t2 v2 s)"
      using 1 Tok.hyps(1) by (simp add: rf_hit)
    also have "\<dots> = v1 @ replace_from t2 v2 (replace_from t1 v1 s)"
      by (simp only: Tok.IH)
    also have "\<dots> = replace_from t2 v2 (v1 @ replace_from t1 v1 s)"
      by (simp only: rf_brace_free [OF assms(3) assms(5)])
    also have "\<dots> = replace_from t2 v2 (replace_from t1 v1 (CHR ''{'' # u @ CHR ''}'' # s))"
      using 1 Tok.hyps(1) by (simp add: rf_hit)
    finally show ?thesis .
  next
    case 2
    have "replace_from t2 v2 (replace_from t1 v1 (CHR ''{'' # u @ CHR ''}'' # s))
        = replace_from t2 v2 (CHR ''{'' # u @ CHR ''}'' # replace_from t1 v1 s)"
      using 2 Tok.hyps(1) by (simp add: rf_other [OF assms(2)])
    also have "\<dots> = v2 @ replace_from t2 v2 (replace_from t1 v1 s)"
      using 2 Tok.hyps(1) by (simp add: rf_hit)
    also have "\<dots> = v2 @ replace_from t1 v1 (replace_from t2 v2 s)"
      by (simp only: Tok.IH)
    also have "\<dots> = replace_from t1 v1 (v2 @ replace_from t2 v2 s)"
      by (simp only: rf_brace_free [OF assms(2) assms(6)])
    also have "\<dots> = replace_from t1 v1 (replace_from t2 v2 (CHR ''{'' # u @ CHR ''}'' # s))"
      using 2 Tok.hyps(1) by (simp add: rf_hit)
    finally show ?thesis by (rule sym)
  next
    case 3
    with Tok show ?thesis
      by (simp add: rf_other [OF assms(2)] rf_other [OF assms(3)])
  qed
qed

lemma token_sublist_eq:
  assumes "is_token t1" and "is_token t2" and "sublist t1 t2"
  shows "t1 = t2"
proof -
  from assms(1) obtain b1 where t1: "t1 = CHR ''{'' # b1 @ [CHR ''}'']" and b1: "brace_free b1"
    by (auto simp: is_token_iff)
  from assms(2) obtain b2 where t2: "t2 = CHR ''{'' # b2 @ [CHR ''}'']" and b2: "brace_free b2"
    by (auto simp: is_token_iff)
  from assms(3) obtain ps ss where d: "t2 = ps @ t1 @ ss" by (auto simp: sublist_def)
  show ?thesis
  proof (cases ps)
    case Nil
    with d t1 t2 have "b2 @ CHR ''}'' # [] = b1 @ CHR ''}'' # ss" by simp
    then have "takeWhile (\<lambda>c. c \<noteq> CHR ''}'') (b2 @ CHR ''}'' # [])
        = takeWhile (\<lambda>c. c \<noteq> CHR ''}'') (b1 @ CHR ''}'' # ss)" by (rule arg_cong)
    with b1 b2 have "b2 = b1" by (simp only: takeWhile_body)
    with t1 t2 show ?thesis by simp
  next
    case (Cons p ps')
    with d t1 t2 have "b2 @ [CHR ''}''] = ps' @ CHR ''{'' # b1 @ [CHR ''}''] @ ss" by simp
    then have "CHR ''{'' \<in> set (b2 @ [CHR ''}''])" by simp
    with b2 show ?thesis by (simp add: brace_free_def)
  qed
qed

lemma replace_text_fold: "replace_text s T = fold subst_step T s"
proof (induction T arbitrary: s)
  case Nil
  show ?case by simp
next
  case (Cons p T)
  obtain t v where p: "p = (t, v)" by (cases p)
  show ?case by (simp add: p Cons.IH subst_step_def)
qed

lemma subst_step_token:
  assumes "is_token (fst p)"
  shows "subst_step p s = (if truthy (snd p) then replace_from (fst p) (py_str (snd p)) s else s)"
proof -
  from token_hd [OF assms] have "fst p \<noteq> []" by auto
  then show ?thesis by (simp add: subst_step_def py_replace_def)
qed

lemma order_independent:
  assumes perm: "mset T' = mset T"
    and keys: "distinct (map fst T)"
    and toks: "\<forall>p\<in>set T. is_token (fst p)"
    and vals: "\<forall>p\<in>set T. truthy (snd p) \<longrightarrow> brace_free (py_str (snd p))"
    and flat: "flat False s"
  shows "replace_text s T' = replace_text s T"
proof -
  from perm have st: "set T' = set T" by (rule mset_eq_setD)
  have "fold subst_step T' s = fold subst_step T s"
  proof (rule fold_permuted_eq [where P = flat_str])
    show "mset T' = mset T" by (rule perm)
    show "flat_str s" using flat by (rule flat_imp_flat_str)
  next
    fix x z assume x: "x \<in> set T'" and z: "flat_str z"
    from x st toks vals have tx: "is_token (fst x)" and vx: "truthy (snd x) \<longrightarrow> brace_free (py_str (snd x))"
      by auto
    show "flat_str (subst_step x z)"
      using z vx by (simp add: subst_step_token [OF tx] rf_flat [OF _ tx])
  next
    fix x y z assume x: "x \<in> set T'" and y: "y \<in> set T'" and z: "flat_str z"
    from x st toks vals have tx: "is_token (fst x)" and vx: "truthy (snd x) \<longrightarrow> brace_free (py_str (snd x))"
      by auto
    from y st toks vals have ty: "is_token (fst y)" and vy: "truthy (snd y) \<longrightarrow> brace_free (py_str (snd y))"
      by auto
    show "subst_step x (subst_step y z) = subst_step y (subst_step x z)"
    proof (cases "x = y")
      case True
      then show ?thesis by simp
    next
      case False
      from keys have "inj_on fst (set T)" by (simp add: distinct_map)
      with x y st False have ne: "fst x \<noteq> fst y" by (auto dest: inj_onD)
      show ?thesis
      proof (cases "truthy (snd x) \<and> truthy (snd y)")
        case True
        with vx vy rf_commute [OF z tx ty ne, of "py_str (snd x)" "py_str (snd y)"]
        show ?thesis by (simp add: subst_step_token [OF tx] subst_step_token [OF ty])
      next
        case False
        then show ?thesis by (auto simp: subst_step_token [OF tx] subst_step_token [OF ty])
      qed
    qed
  qed
  then show ?thesis by (simp only: replace_text_fold)
qed

lemma user_table_tokens: "\<forall>p\<in>set (user_table fd u). is_token (fst p)"
  by (simp add: user_table_def is_token_def brace_free_def)

lemma level_table_tokens: "\<forall>p\<in>set (level_table n). is_token (fst p)"
  by (simp add: level_table_def is_token_def brace_free_def)

lemma xp_table_tokens: "\<forall>p\<in>set (xp_table n). is_token (fst p)"
  by (simp add: xp_table_def is_token_def brace_free_def)

lemma message_table_tokens: "\<forall>p\<in>set (message_table fd m). is_token (fst p)"
  by (simp add: message_table_def is_token_def brace_free_def)

lemma mapping_tokens: "\<forall>p\<in>set (mapping fd u m l x). is_token (fst p)"
proof -
  have "mapping fd u m l x = user_table fd (the u)
      \<or> mapping fd u m l x = level_table (the l)
      \<or> mapping fd u m l x = xp_table (the x)
      \<or> mapping fd u m l x = message_table fd (the m)
      \<or> mapping fd u m l x = []"
    by (simp add: mapping_def)
  then show ?thesis
  proof (elim disjE)
    assume a: "mapping fd u m l x = user_table fd (the u)"
    show ?thesis unfolding a by (rule user_table_tokens)
  next
    assume b: "mapping fd u m l x = level_table (the l)"
    show ?thesis unfolding b by (rule level_table_tokens)
  next
    assume c: "mapping fd u m l x = xp_table (the x)"
    show ?thesis unfolding c by (rule xp_table_tokens)
  next
    assume d: "mapping fd u m l x = message_table fd (the m)"
    show ?thesis unfolding d by (rule message_table_tokens)
  next
    assume e: "mapping fd u m l x = []"
    show ?thesis unfolding e by simp
  qed
qed

lemma mapping_distinct: "distinct (map fst (mapping fd u m l x))"
  by (simp add: mapping_def user_table_def level_table_def xp_table_def message_table_def)

lemma digit_char_plain:
  assumes "d < 10"
  shows "digit_char d \<noteq> CHR ''{'' \<and> digit_char d \<noteq> CHR ''}''"
proof -
  have "digit_char d \<in> set ''0123456789''"
    unfolding digit_char_def using assms by (intro nth_mem) simp
  then show ?thesis by auto
qed

lemma digits_brace_free: "brace_free (digits n)"
proof (induction n rule: digits.induct)
  case (1 n)
  show ?case
  proof (cases "n < 10")
    case True
    with digit_char_plain [of n] show ?thesis
      by (subst digits.simps) (auto simp: brace_free_def)
  next
    case False
    with "1.IH" have "brace_free (digits (n div 10))" by simp
    moreover have "n mod 10 < 10" by simp
    ultimately show ?thesis
      using False digit_char_plain [of "n mod 10"]
      by (subst digits.simps) (auto simp: brace_free_def)
  qed
qed

lemma str_int_brace_free: "brace_free (str_int i)"
  using digits_brace_free [of "nat i"] digits_brace_free [of "nat (- i)"]
  by (simp add: str_int_def brace_free_def)

text \<open>
  C1 (amended). No token of a placeholder table is a substring of another token, of the
  same table or of the table of another event. For a table built by \<open>mapping\<close> whose
  truthy values render without braces, and a flat text, the substitution gives the same
  string whatever the order in which the entries of the table are taken. The tables of a
  level and of an xp event always are of that kind: their values are decimal numerals.
\<close>

theorem order_independent_on_flat_text:
  assumes "mset T' = mset (mapping fd u m l x)"
    and "\<forall>p\<in>set (mapping fd u m l x). truthy (snd p) \<longrightarrow> brace_free (py_str (snd p))"
    and "flat False s"
  shows "replace_text s T' = replace_text s (mapping fd u m l x)
       \<and> (\<forall>t1\<in>set (map fst (mapping fd u m l x)). \<forall>t2\<in>set (map fst (mapping fd2 u2 m2 l2 x2)).
             sublist t1 t2 \<longrightarrow> t1 = t2)
       \<and> (\<forall>p\<in>set (level_table n) \<union> set (xp_table n). brace_free (py_str (snd p)))"
proof -
  have a: "replace_text s T' = replace_text s (mapping fd u m l x)"
    using assms(1) mapping_distinct mapping_tokens assms(2,3) by (rule order_independent)
  have b: "\<forall>t1\<in>set (map fst (mapping fd u m l x)). \<forall>t2\<in>set (map fst (mapping fd2 u2 m2 l2 x2)).
             sublist t1 t2 \<longrightarrow> t1 = t2"
    using mapping_tokens [of fd u m l x] mapping_tokens [of fd2 u2 m2 l2 x2]
    by (auto intro: token_sublist_eq)
  have c: "\<forall>p\<in>set (level_table n) \<union> set (xp_table n). brace_free (py_str (snd p))"
    by (simp add: level_table_def xp_table_def py_str_def str_int_brace_free)
  from a b c show ?thesis by (intro conjI)
qed

theorem order_independent_on_flat_text_witness:
  "mset (rev (mapping example_format_dt None None (Some 5) None))
     = mset (mapping example_format_dt None None (Some 5) None)
   \<and> mapping example_format_dt None None (Some 5) None = [(''{level}'', VStr ''5''), (''{level.previous}'', VStr ''4'')]
   \<and> brace_free ''5'' \<and> brace_free ''4''
   \<and> flat False ''lvl {level}, before {level.previous} }{''
   \<and> replace_text ''lvl {level}, before {level.previous} }{'' (rev (mapping example_format_dt None None (Some 5) None))
       = ''lvl 5, before 4 }{''"
proof -
  let ?T = "mapping example_format_dt None None (Some 5) None"
  let ?s = "''lvl {level}, before {level.previous} }{''"
  have T: "?T = [(''{level}'', VStr ''5''), (''{level.previous}'', VStr ''4'')]"
    by (simp add: mapping_def int_truthy_def table_eval)
  have h1: "mset (rev ?T) = mset ?T" by simp
  have bf: "brace_free ''5''" "brace_free ''4''" by (simp_all add: brace_free_def)
  have h2: "\<forall>p\<in>set ?T. truthy (snd p) \<longrightarrow> brace_free (py_str (snd p))"
    by (simp add: T py_str_def brace_free_def)
  have h3: "flat False ?s" by simp
  have "replace_text ?s (rev ?T) = replace_text ?s ?T"
    by (rule order_independent_on_flat_text [OF h1 h2 h3, THEN conjunct1])
  also have "\<dots> = ''lvl 5, before 4 }{''" by (simp add: T truthy_def py_str_def py_replace_def replace_from.simps)
  finally have r: "replace_text ?s (rev ?T) = ''lvl 5, before 4 }{''" .
  from h1 T bf h3 r show ?thesis by (intro conjI)
qed

text \<open>The claim as stated, order independence for arbitrary replacement values, fails: a
  message whose content is the text \<open>{message.url}\<close> renders \<open>{message.content}\<close> as the
  URL in the order of the table and as \<open>{message.url}\<close> in the reverse order. Values
  without braces are not enough either, when the text nests a token in braces.\<close>

theorem order_matters_counterexample:
  "mset (rev (mapping example_format_dt None (Some example_message) None None))
     = mset (mapping example_format_dt None (Some example_message) None None)
   \<and> replace_text ''{message.content}'' (mapping example_format_dt None (Some example_message) None None)
       = ''https://m/1''
   \<and> replace_text ''{message.content}'' (rev (mapping example_format_dt None (Some example_message) None None))
       = ''{message.url}''
   \<and> replace_text ''{user.{user.name}}''
        (mapping example_format_dt (Some (example_member\<lparr>member_name := ''id''\<rparr>)) None None None)
       = ''{user.id}''
   \<and> replace_text ''{user.{user.name}}''
        (rev (mapping example_format_dt (Some (example_member\<lparr>member_name := ''id''\<rparr>)) None None None))
       = ''42''"
proof -
  have m: "mapping example_format_dt None (Some example_message) None None
      = [(''{message.content}'', VStr ''{message.url}''), (''{message.url}'', VStr ''https://m/1''),
         (''{message.created_at}'', VStr ''<t:1700000000:R>'')]"
    by (simp add: mapping_def int_truthy_def message_table_def example_message_def example_format_dt_def table_eval)
  have a: "mset (rev (mapping example_format_dt None (Some example_message) None None))
     = mset (mapping example_format_dt None (Some example_message) None None)" by simp
  have b: "replace_text ''{message.content}'' (mapping example_format_dt None (Some example_message) None None)
       = ''https://m/1''"
    by (simp add: m truthy_def py_str_def py_replace_def replace_from.simps)
  have c: "replace_text ''{message.content}'' (rev (mapping example_format_dt None (Some example_message) None None))
       = ''{message.url}''"
    by (simp add: m truthy_def py_str_def py_replace_def replace_from.simps)
  have u: "mapping example_format_dt (Some (example_member\<lparr>member_name := ''id''\<rparr>)) None None None
      = user_table example_format_dt (example_member\<lparr>member_name := ''id''\<rparr>)"
    by (simp add: mapping_def)
  have d: "replace_text ''{user.{user.name}}''
        (user_table example_format_dt (example_member\<lparr>member_name := ''id''\<rparr>)) = ''{user.id}''"
    by (simp add: user_table_def example_member_def example_guild_def example_format_dt_def opt_url_def table_eval)
  have e: "replace_text ''{user.{user.name}}''
        (rev (user_table example_format_dt (example_member\<lparr>member_name := ''id''\<rparr>))) = ''42''"
    by (simp add: user_table_def example_member_def example_guild_def example_format_dt_def opt_url_def table_eval)
  from a b c d e show ?thesis by (simp only: u)
qed

end
